theory Spec2Isabelle
  imports Main
begin

unbundle bit_operations_syntax

section \<open>JavaScript strings and host errors\<close>

text \<open>
  A JavaScript string is a sequence of UTF-16 code units. A code unit is modelled as a
  natural number below \<open>65536\<close>; \<open>js\<close> embeds an ASCII literal.
  An exception thrown by the host or by the program is a value \<open>Inl e\<close>.
\<close>

type_synonym jsstring = "nat list"

definition js :: "string \<Rightarrow> jsstring" where
  "js s = map of_char s"

datatype js_error = URIError | InvalidCharacterError | TypeError | RangeError

fun emit :: "jsstring \<Rightarrow> js_error + jsstring \<Rightarrow> js_error + jsstring" where
  "emit xs (Inl e) = Inl e"
| "emit xs (Inr ys) = Inr (xs @ ys)"

text \<open>\<open>String.prototype.startsWith\<close>, \<open>includes\<close> (here \<open>js_includes\<close>), \<open>endsWith\<close> and \<open>trim\<close>.\<close>

fun startsWith :: "jsstring \<Rightarrow> jsstring \<Rightarrow> bool" where
  "startsWith s [] = True"
| "startsWith [] (p # ps) = False"
| "startsWith (c # cs) (p # ps) = (c = p \<and> startsWith cs ps)"

fun js_includes :: "jsstring \<Rightarrow> jsstring \<Rightarrow> bool" where
  "js_includes [] p = (p = [])"
| "js_includes (c # cs) p = (startsWith (c # cs) p \<or> js_includes cs p)"

definition endsWith :: "jsstring \<Rightarrow> jsstring \<Rightarrow> bool" where
  "endsWith s p = startsWith (rev s) (rev p)"

definition is_js_space :: "nat \<Rightarrow> bool" where
  "is_js_space c \<longleftrightarrow>
     c \<in> {9, 10, 11, 12, 13, 32, 160, 5760, 8232, 8233, 8239, 8287, 12288, 65279}
     \<or> (8192 \<le> c \<and> c \<le> 8202)"

definition trim :: "jsstring \<Rightarrow> jsstring" where
  "trim s = rev (dropWhile is_js_space (rev (dropWhile is_js_space s)))"

section \<open>The host's URI and base64 functions\<close>

subsection \<open>encodeURIComponent\<close>

definition is_alnum :: "nat \<Rightarrow> bool" where
  "is_alnum c \<longleftrightarrow> (48 \<le> c \<and> c \<le> 57) \<or> (65 \<le> c \<and> c \<le> 90) \<or> (97 \<le> c \<and> c \<le> 122)"

text \<open>The characters \<open>encodeURIComponent\<close> leaves alone: letters, digits and \<open>-_.!~*'()\<close>.\<close>

definition uriUnescaped :: "nat \<Rightarrow> bool" where
  "uriUnescaped c \<longleftrightarrow> is_alnum c \<or> c \<in> {45, 95, 46, 33, 126, 42, 39, 40, 41}"

definition hexdig :: "nat \<Rightarrow> nat" where
  "hexdig n = (if n < 10 then 48 + n else 55 + n)"

definition pct :: "nat \<Rightarrow> jsstring" where
  "pct b = [37, hexdig (b div 16), hexdig (b mod 16)]"

definition utf8 :: "nat \<Rightarrow> nat list" where
  "utf8 cp =
     (if cp < 128 then [cp]
      else if cp < 2048 then [192 + cp div 64, 128 + cp mod 64]
      else if cp < 65536 then [224 + cp div 4096, 128 + (cp div 64) mod 64, 128 + cp mod 64]
      else [240 + cp div 262144, 128 + (cp div 4096) mod 64,
            128 + (cp div 64) mod 64, 128 + cp mod 64])"

definition is_high_surrogate :: "nat \<Rightarrow> bool" where
  "is_high_surrogate c \<longleftrightarrow> 55296 \<le> c \<and> c \<le> 56319"

definition is_low_surrogate :: "nat \<Rightarrow> bool" where
  "is_low_surrogate c \<longleftrightarrow> 56320 \<le> c \<and> c \<le> 57343"

text \<open>
  The loop of \<open>Encode\<close> in ECMA-262: an unescaped code unit is copied; any other code
  point is written as the percent-escapes of its UTF-8 octets; an unpaired surrogate
  throws \<open>URIError\<close>.
\<close>

fun encodeURIComponent :: "jsstring \<Rightarrow> js_error + jsstring" where
  "encodeURIComponent [] = Inr []"
| "encodeURIComponent (c # cs) =
     (if uriUnescaped c then emit [c] (encodeURIComponent cs)
      else if is_low_surrogate c then Inl URIError
      else if is_high_surrogate c then
        (case cs of
           [] \<Rightarrow> Inl URIError
         | d # ds \<Rightarrow>
             if is_low_surrogate d
             then emit (concat (map pct (utf8 (65536 + (c - 55296) * 1024 + (d - 56320)))))
                    (encodeURIComponent ds)
             else Inl URIError)
      else emit (concat (map pct (utf8 c))) (encodeURIComponent cs))"

subsection \<open>decodeURIComponent\<close>

definition hexval :: "nat \<Rightarrow> nat option" where
  "hexval c =
     (if 48 \<le> c \<and> c \<le> 57 then Some (c - 48)
      else if 65 \<le> c \<and> c \<le> 70 then Some (c - 55)
      else if 97 \<le> c \<and> c \<le> 102 then Some (c - 87)
      else None)"

definition hex_octet :: "nat \<Rightarrow> nat \<Rightarrow> nat option" where
  "hex_octet h1 h2 =
     (case hexval h1 of None \<Rightarrow> None
      | Some a \<Rightarrow> (case hexval h2 of None \<Rightarrow> None | Some b \<Rightarrow> Some (a * 16 + b)))"

text \<open>The number of leading 1 bits of an octet, as far as the decoder distinguishes them.\<close>

definition leading_ones :: "nat \<Rightarrow> nat" where
  "leading_ones b =
     (if b < 128 then 0 else if b < 192 then 1 else if b < 224 then 2
      else if b < 240 then 3 else if b < 248 then 4 else 5)"

definition is_cont :: "nat \<Rightarrow> bool" where
  "is_cont b \<longleftrightarrow> 128 \<le> b \<and> b < 192"

text \<open>
  The code point of a well-formed UTF-8 sequence of two to four octets: continuation
  octets are \<open>10xxxxxx\<close>, the encoding is the shortest one, and the value is neither a
  surrogate nor above \<open>0x10FFFF\<close>.
\<close>

fun utf8_decode :: "nat list \<Rightarrow> nat option" where
  "utf8_decode [b0, b1] =
     (let v = (b0 - 192) * 64 + (b1 - 128)
      in if is_cont b1 \<and> 128 \<le> v then Some v else None)"
| "utf8_decode [b0, b1, b2] =
     (let v = (b0 - 224) * 4096 + (b1 - 128) * 64 + (b2 - 128)
      in if is_cont b1 \<and> is_cont b2 \<and> 2048 \<le> v \<and> \<not> (55296 \<le> v \<and> v \<le> 57343)
         then Some v else None)"
| "utf8_decode [b0, b1, b2, b3] =
     (let v = (b0 - 240) * 262144 + (b1 - 128) * 4096 + (b2 - 128) * 64 + (b3 - 128)
      in if is_cont b1 \<and> is_cont b2 \<and> is_cont b3 \<and> 65536 \<le> v \<and> v \<le> 1114111
         then Some v else None)"
| "utf8_decode _ = None"

definition utf16 :: "nat \<Rightarrow> jsstring" where
  "utf16 v =
     (if v < 65536 then [v]
      else [55296 + (v - 65536) div 1024, 56320 + (v - 65536) mod 1024])"

text \<open>Reads \<open>j\<close> further escapes \<open>%XX\<close>; \<open>None\<close> where the decoder throws.\<close>

fun read_octets :: "nat \<Rightarrow> jsstring \<Rightarrow> (nat list \<times> jsstring) option" where
  "read_octets 0 s = Some ([], s)"
| "read_octets (Suc j) (p # h1 # h2 # s) =
     (if p = 37 then
        (case hex_octet h1 h2 of
           None \<Rightarrow> None
         | Some b \<Rightarrow>
             (case read_octets j s of
                None \<Rightarrow> None
              | Some (bs, r) \<Rightarrow> Some (b # bs, r)))
      else None)"
| "read_octets (Suc j) _ = None"

function decodeURIComponent :: "jsstring \<Rightarrow> js_error + jsstring" where
  "decodeURIComponent [] = Inr []"
| "decodeURIComponent (c # cs) =
     (if c \<noteq> 37 then emit [c] (decodeURIComponent cs)
      else
        (case cs of
           h1 # h2 # rest \<Rightarrow>
             (case hex_octet h1 h2 of
                None \<Rightarrow> Inl URIError
              | Some b \<Rightarrow>
                  if leading_ones b = 0 then emit [b] (decodeURIComponent rest)
                  else if leading_ones b = 1 \<or> 4 < leading_ones b then Inl URIError
                  else
                    (case read_octets (leading_ones b - 1) rest of
                       None \<Rightarrow> Inl URIError
                     | Some (bs, r) \<Rightarrow>
                         (case utf8_decode (b # bs) of
                            None \<Rightarrow> Inl URIError
                          | Some v \<Rightarrow> emit (utf16 v) (decodeURIComponent r))))
         | _ \<Rightarrow> Inl URIError))"
  by pat_completeness auto
termination
proof -
  have len: "read_octets j s = Some (bs, r) \<Longrightarrow> length r \<le> length s" for j s bs r
  proof (induction j s arbitrary: bs r rule: read_octets.induct)
    case (2 j p h1 h2 s)
    then show ?case
      by (fastforce split: if_splits option.splits)
  qed simp_all
  show ?thesis
    by (relation "measure length") (auto dest: len)
qed

subsection \<open>escape and unescape\<close>

definition escapeUnescaped :: "nat \<Rightarrow> bool" where
  "escapeUnescaped c \<longleftrightarrow> is_alnum c \<or> c \<in> {64, 42, 95, 43, 45, 46, 47}"

definition escape1 :: "nat \<Rightarrow> jsstring" where
  "escape1 c =
     (if escapeUnescaped c then [c]
      else if c < 256 then pct c
      else [37, 117, hexdig (c div 4096), hexdig ((c div 256) mod 16),
            hexdig ((c div 16) mod 16), hexdig (c mod 16)])"

definition escape :: "jsstring \<Rightarrow> jsstring" where
  "escape s = concat (map escape1 s)"

text \<open>
  \<open>unescape\<close> replaces \<open>%uXXXX\<close> and \<open>%XX\<close> by the code unit they name and copies
  everything else, a \<open>%\<close> that starts no escape included; it never throws.
\<close>

fun unescape :: "jsstring \<Rightarrow> jsstring" where
  "unescape [] = []"
| "unescape (c # cs) =
     (if c \<noteq> 37 then c # unescape cs
      else
        (case cs of
           u # h1 # h2 # h3 # h4 # r \<Rightarrow>
             if u = 117 then
               (case (hex_octet h1 h2, hex_octet h3 h4) of
                  (Some a, Some b) \<Rightarrow> (a * 256 + b) # unescape r
                | _ \<Rightarrow> c # unescape cs)
             else
               (case hex_octet u h1 of
                  Some n \<Rightarrow> n # unescape (h2 # h3 # h4 # r)
                | None \<Rightarrow> c # unescape cs)
         | h1 # h2 # r \<Rightarrow>
             (case hex_octet h1 h2 of
                Some n \<Rightarrow> n # unescape r
              | None \<Rightarrow> c # unescape cs)
         | _ \<Rightarrow> c # unescape cs))"

subsection \<open>btoa and atob\<close>

definition b64char :: "nat \<Rightarrow> nat" where
  "b64char n =
     (if n < 26 then 65 + n else if n < 52 then 71 + n else if n < 62 then n - 4
      else if n = 62 then 43 else 47)"

fun b64_encode :: "nat list \<Rightarrow> jsstring" where
  "b64_encode [] = []"
| "b64_encode [a] = [b64char (a div 4), b64char ((a mod 4) * 16), 61, 61]"
| "b64_encode [a, b] =
     [b64char (a div 4), b64char ((a mod 4) * 16 + b div 16), b64char ((b mod 16) * 4), 61]"
| "b64_encode (a # b # c # r) =
     [b64char (a div 4), b64char ((a mod 4) * 16 + b div 16),
      b64char ((b mod 16) * 4 + c div 64), b64char (c mod 64)] @ b64_encode r"

text \<open>\<open>btoa\<close> throws \<open>InvalidCharacterError\<close> on a code unit above \<open>0xFF\<close>.\<close>

definition btoa :: "jsstring \<Rightarrow> js_error + jsstring" where
  "btoa s = (if \<exists>c \<in> set s. 255 < c then Inl InvalidCharacterError else Inr (b64_encode s))"

definition b64val :: "nat \<Rightarrow> nat option" where
  "b64val c =
     (if 65 \<le> c \<and> c \<le> 90 then Some (c - 65)
      else if 97 \<le> c \<and> c \<le> 122 then Some (c - 71)
      else if 48 \<le> c \<and> c \<le> 57 then Some (c + 4)
      else if c = 43 then Some 62
      else if c = 47 then Some 63
      else None)"

definition is_ascii_whitespace :: "nat \<Rightarrow> bool" where
  "is_ascii_whitespace c \<longleftrightarrow> c \<in> {9, 10, 12, 13, 32}"

definition strip_padding :: "jsstring \<Rightarrow> jsstring" where
  "strip_padding d =
     (if length d mod 4 = 0 then
        (if endsWith d [61, 61] then butlast (butlast d)
         else if endsWith d [61] then butlast d
         else d)
      else d)"

text \<open>
  Groups of four sextets give three octets; a rest of two sextets gives one octet and a
  rest of three gives two, the surplus bits being dropped.
\<close>

fun b64_decode :: "nat list \<Rightarrow> nat list" where
  "b64_decode (s1 # s2 # s3 # s4 # r) =
     (let n = ((s1 * 64 + s2) * 64 + s3) * 64 + s4
      in [n div 65536, (n div 256) mod 256, n mod 256]) @ b64_decode r"
| "b64_decode [s1, s2, s3] =
     (let n = (s1 * 64 + s2) * 64 + s3 in [n div 1024, (n div 4) mod 256])"
| "b64_decode [s1, s2] = [(s1 * 64 + s2) div 16]"
| "b64_decode _ = []"

fun sextets :: "jsstring \<Rightarrow> nat list option" where
  "sextets [] = Some []"
| "sextets (c # cs) =
     (case b64val c of
        None \<Rightarrow> None
      | Some v \<Rightarrow> (case sextets cs of None \<Rightarrow> None | Some vs \<Rightarrow> Some (v # vs)))"

text \<open>
  \<open>atob\<close> is the forgiving base64 decoder: ASCII whitespace is dropped, one or two
  closing \<open>=\<close> are removed when the length is a multiple of four, and a length of
  \<open>1\<close> modulo \<open>4\<close> or a character outside the alphabet throws.
\<close>

definition atob :: "jsstring \<Rightarrow> js_error + jsstring" where
  "atob data =
     (let d = strip_padding (filter (\<lambda>c. \<not> is_ascii_whitespace c) data)
      in if length d mod 4 = 1 then Inl InvalidCharacterError
         else (case sextets d of
                 None \<Rightarrow> Inl InvalidCharacterError
               | Some vs \<Rightarrow> Inr (b64_decode vs)))"

section \<open>The codecs of the bundle (uv.bundle.js)\<close>

fun andThen :: "js_error + 'a \<Rightarrow> ('a \<Rightarrow> js_error + 'b) \<Rightarrow> js_error + 'b" where
  "andThen (Inl e) f = Inl e"
| "andThen (Inr x) f = f x"

text \<open>
  \<open>!str\<close> holds of the empty string only, so each method but those of \<open>none\<close> returns
  the empty string as it is. The methods call the host's functions with no \<open>try\<close>
  around them: what the host throws, the method throws.
\<close>

definition none_encode :: "jsstring \<Rightarrow> js_error + jsstring" where
  "none_encode str = Inr str"

definition none_decode :: "jsstring \<Rightarrow> js_error + jsstring" where
  "none_decode str = Inr str"

definition plain_encode :: "jsstring \<Rightarrow> js_error + jsstring" where
  "plain_encode str = (if str = [] then Inr str else encodeURIComponent str)"

definition plain_decode :: "jsstring \<Rightarrow> js_error + jsstring" where
  "plain_decode str = (if str = [] then Inr str else decodeURIComponent str)"

text \<open>
  The loop of the \<open>xor\<close> codec, started at index \<open>i\<close>: the code unit at an odd index is
  XOR-ed with \<open>2\<close> (\<open>String.fromCharCode\<close> keeps the low 16 bits).
\<close>

fun xor_loop :: "nat \<Rightarrow> jsstring \<Rightarrow> jsstring" where
  "xor_loop i [] = []"
| "xor_loop i (c # cs) =
     (if i mod 2 \<noteq> 0 then (c XOR 2) mod 65536 else c) # xor_loop (Suc i) cs"

definition xor_encode :: "jsstring \<Rightarrow> js_error + jsstring" where
  "xor_encode str = (if str = [] then Inr str else encodeURIComponent (xor_loop 0 str))"

definition xor_decode :: "jsstring \<Rightarrow> js_error + jsstring" where
  "xor_decode str =
     (if str = [] then Inr str
      else andThen (decodeURIComponent str) (\<lambda>d. Inr (xor_loop 0 d)))"

definition base64_encode :: "jsstring \<Rightarrow> js_error + jsstring" where
  "base64_encode str = (if str = [] then Inr str else andThen (encodeURIComponent str) btoa)"

definition base64_decode :: "jsstring \<Rightarrow> js_error + jsstring" where
  "base64_decode str = (if str = [] then Inr str else andThen (atob str) decodeURIComponent)"

datatype codecId = CodecNone | CodecPlain | CodecXor | CodecBase64

fun codec_encode :: "codecId \<Rightarrow> jsstring \<Rightarrow> js_error + jsstring" where
  "codec_encode CodecNone = none_encode"
| "codec_encode CodecPlain = plain_encode"
| "codec_encode CodecXor = xor_encode"
| "codec_encode CodecBase64 = base64_encode"

fun codec_decode :: "codecId \<Rightarrow> jsstring \<Rightarrow> js_error + jsstring" where
  "codec_decode CodecNone = none_decode"
| "codec_decode CodecPlain = plain_decode"
| "codec_decode CodecXor = xor_decode"
| "codec_decode CodecBase64 = base64_decode"

section \<open>The codec of the service worker (sw.js)\<close>

definition replace_all :: "nat \<Rightarrow> nat \<Rightarrow> jsstring \<Rightarrow> jsstring" where
  "replace_all a b s = map (\<lambda>c. if c = a then b else c) s"

definition remove_all :: "nat \<Rightarrow> jsstring \<Rightarrow> jsstring" where
  "remove_all a s = filter (\<lambda>c. c \<noteq> a) s"

text \<open>
  \<open>encodeUrl\<close> of sw.js: URL-safe base64 of the UTF-8 octets of the URL, the padding
  removed. The \<open>catch\<close> turns every exception into \<open>null\<close>, here \<open>None\<close>.
\<close>

definition sw_encodeUrl :: "jsstring \<Rightarrow> jsstring option" where
  "sw_encodeUrl url =
     (case andThen (encodeURIComponent url) (\<lambda>p. btoa (unescape p)) of
        Inl e \<Rightarrow> None
      | Inr b \<Rightarrow> Some (remove_all 61 (replace_all 47 95 (replace_all 43 45 b))))"

text \<open>The loop \<open>while (padded.length % 4) padded += '='\<close>.\<close>

function add_padding :: "jsstring \<Rightarrow> jsstring" where
  "add_padding padded =
     (if length padded mod 4 \<noteq> 0 then add_padding (padded @ [61]) else padded)"
  by pat_completeness auto
termination
proof (relation "measure (\<lambda>p. (4 - length p mod 4) mod 4)")
  fix padded :: jsstring
  assume "length padded mod 4 \<noteq> 0"
  then have "(4 - Suc (length padded) mod 4) mod 4 < (4 - length padded mod 4) mod 4"
    by (simp add: mod_Suc) arith
  then show "(padded @ [61], padded) \<in> measure (\<lambda>p. (4 - length p mod 4) mod 4)"
    by simp
qed simp

declare add_padding.simps [simp del]

definition sw_decodeUrl :: "jsstring \<Rightarrow> jsstring option" where
  "sw_decodeUrl encoded =
     (let padded = add_padding (replace_all 95 47 (replace_all 45 43 encoded))
      in case andThen (atob padded) (\<lambda>b. decodeURIComponent (escape b)) of
           Inl e \<Rightarrow> None
         | Inr s \<Rightarrow> Some s)"

section \<open>The host: URL parsing and the location\<close>

text \<open>
  \<open>new URL(url, base)\<close> is the host's parser, not code of the repository. The
  program is modelled over any host: \<open>new_URL\<close> takes the input and the optional base
  and gives the parsed URL, or the \<open>TypeError\<close> the constructor throws. The fields are
  the ones the program reads.
\<close>

record URL =
  href :: jsstring
  protocol :: jsstring
  host :: jsstring
  hostname :: jsstring
  pathname :: jsstring
  search :: jsstring
  origin :: jsstring

record host_env =
  new_URL :: "jsstring \<Rightarrow> jsstring option \<Rightarrow> js_error + URL"
  location_href :: jsstring
  location_origin :: jsstring
  location_protocol :: jsstring

section \<open>The Ultraviolet class (uv.bundle.js)\<close>

text \<open>
  An absent, \<open>null\<close> or empty string field is the empty string: the program tests
  these fields for truthiness only.
\<close>

record meta =
  meta_base :: jsstring
  meta_origin :: jsstring
  meta_url :: jsstring

record options =
  opt_prefix :: jsstring
  opt_codec :: "codecId option"
  opt_encodeUrl :: "(jsstring \<Rightarrow> js_error + jsstring) option"
  opt_decodeUrl :: "(jsstring \<Rightarrow> js_error + jsstring) option"
  opt_meta :: "meta option"

record ultraviolet =
  uv_prefix :: jsstring
  uv_encodeUrl :: "jsstring \<Rightarrow> js_error + jsstring"
  uv_decodeUrl :: "jsstring \<Rightarrow> js_error + jsstring"
  uv_meta :: meta

definition or_else :: "jsstring \<Rightarrow> jsstring \<Rightarrow> jsstring" where
  "or_else a b = (if a \<noteq> [] then a else b)"

text \<open>The constructor.\<close>

definition Ultraviolet :: "host_env \<Rightarrow> options \<Rightarrow> ultraviolet" where
  "Ultraviolet H opts =
     (let codec = (case opt_codec opts of None \<Rightarrow> CodecXor | Some c \<Rightarrow> c);
          m = (case opt_meta opts of
                 None \<Rightarrow> \<lparr>meta_base = [], meta_origin = [], meta_url = []\<rparr>
               | Some m \<Rightarrow> m)
      in \<lparr>uv_prefix = or_else (opt_prefix opts) (js ''/service/''),
          uv_encodeUrl = (case opt_encodeUrl opts of None \<Rightarrow> codec_encode codec | Some f \<Rightarrow> f),
          uv_decodeUrl = (case opt_decodeUrl opts of None \<Rightarrow> codec_decode codec | Some f \<Rightarrow> f),
          uv_meta = \<lparr>meta_base = meta_base m,
                      meta_origin = or_else (meta_origin m) (location_origin H),
                      meta_url = meta_url m\<rparr>\<rparr>)"

text \<open>\<open>this.urlRegex.test\<close>, for \<open>/^(#|about:|data:|mailto:|blob:|javascript:)/\<close>.\<close>

definition urlRegex_test :: "jsstring \<Rightarrow> bool" where
  "urlRegex_test url \<longleftrightarrow>
     startsWith url (js ''#'') \<or> startsWith url (js ''about:'') \<or>
     startsWith url (js ''data:'') \<or> startsWith url (js ''mailto:'') \<or>
     startsWith url (js ''blob:'') \<or> startsWith url (js ''javascript:'')"

definition rewriteJS :: "jsstring \<Rightarrow> jsstring" where
  "rewriteJS code = (if code = [] then code else code)"

text \<open>
  \<open>Ultraviolet.rewriteUrl(url, meta)\<close>. The \<open>try\<close> block resolves and encodes; its
  \<open>catch\<close> encodes the trimmed input as it is, and an exception of that second
  \<open>encodeUrl\<close> leaves the method.
\<close>

definition Ultraviolet_rewriteUrl ::
  "host_env \<Rightarrow> ultraviolet \<Rightarrow> jsstring \<Rightarrow> meta option \<Rightarrow> js_error + jsstring" where
  "Ultraviolet_rewriteUrl H this url0 meta0 =
     (let meta = (case meta0 of None \<Rightarrow> uv_meta this | Some m \<Rightarrow> m)
      in if url0 = [] then Inr url0
         else
           let url = trim url0;
               origin = or_else (meta_origin meta) (location_origin H)
           in if urlRegex_test url then Inr url
              else if startsWith url (js ''javascript:'')
              then Inr (js ''javascript:'' @ rewriteJS (drop 11 url))
              else
                (case andThen
                        (if startsWith url (js ''//'') then Inr (location_protocol H @ url)
                         else andThen
                                (new_URL H url
                                   (Some (or_else (meta_base meta)
                                            (or_else (meta_url meta) (location_href H)))))
                                (\<lambda>u. Inr (href u)))
                        (\<lambda>resolved. uv_encodeUrl this resolved) of
                   Inr t \<Rightarrow> Inr (origin @ uv_prefix this @ t)
                 | Inl e \<Rightarrow>
                     andThen (uv_encodeUrl this url) (\<lambda>t. Inr (origin @ uv_prefix this @ t))))"


subsection \<open>Cookies\<close>

record cookie =
  cookie_name :: jsstring
  cookie_value :: jsstring
  cookie_domain :: jsstring
  cookie_path :: jsstring
  cookie_secure :: bool
  cookie_httpOnly :: bool

definition validateCookie ::
  "host_env \<Rightarrow> ultraviolet \<Rightarrow> cookie \<Rightarrow> meta \<Rightarrow> bool \<Rightarrow> bool" where
  "validateCookie H this cookie meta js_ctx =
     (if cookie_httpOnly cookie \<and> js_ctx then False
      else
        (case new_URL H (or_else (meta_url meta) (meta_url (uv_meta this))) None of
           Inl e \<Rightarrow> False
         | Inr parsed \<Rightarrow>
             let domain = cookie_domain cookie
             in if domain \<noteq> [] \<and> startsWith domain (js ''.'') \<and>
                   \<not> endsWith (hostname parsed) (drop 1 domain) \<and>
                   hostname parsed \<noteq> drop 1 domain
                then False
                else if domain \<noteq> [] \<and> \<not> startsWith domain (js ''.'') \<and>
                        hostname parsed \<noteq> domain \<and>
                        \<not> endsWith (hostname parsed) (js ''.'' @ domain)
                then False
                else if cookie_secure cookie \<and> protocol parsed = js ''http:'' then False
                else if cookie_path cookie \<noteq> [] \<and>
                        \<not> startsWith (pathname parsed) (cookie_path cookie)
                then False
                else True))"

fun join :: "jsstring \<Rightarrow> jsstring list \<Rightarrow> jsstring" where
  "join sep [] = []"
| "join sep [x] = x"
| "join sep (x # y # r) = x @ sep @ join sep (y # r)"

definition serializeCookies ::
  "host_env \<Rightarrow> ultraviolet \<Rightarrow> cookie list \<Rightarrow> meta \<Rightarrow> bool \<Rightarrow> jsstring" where
  "serializeCookies H this cookies meta js_ctx =
     join (js ''; '')
       (map (\<lambda>c. cookie_name c @ js ''='' @ cookie_value c)
          (filter (\<lambda>c. validateCookie H this c meta js_ctx) cookies))"

section \<open>The handler (uv.handler.js)\<close>

text \<open>
  \<open>rewriteUrl(url, base)\<close> of the handler. \<open>config\<close> is \<open>__uv$config\<close>, \<open>uv\<close> the
  \<open>Ultraviolet\<close> built from it and \<open>source\<close> is \<open>uv.source\<close>. Everything after the trim
  stands in one \<open>try\<close> whose \<open>catch\<close> returns the trimmed input.
\<close>

definition is_special_url :: "jsstring \<Rightarrow> bool" where
  "is_special_url url \<longleftrightarrow>
     startsWith url (js ''data:'') \<or> startsWith url (js ''blob:'') \<or>
     startsWith url (js ''javascript:'') \<or> startsWith url (js ''about:'') \<or>
     startsWith url (js ''mailto:'') \<or> startsWith url (js ''tel:'') \<or>
     startsWith url (js ''#'')"

definition handler_rewriteUrl ::
  "host_env \<Rightarrow> options \<Rightarrow> jsstring \<Rightarrow> jsstring \<Rightarrow> jsstring \<Rightarrow> jsstring" where
  "handler_rewriteUrl H config source url0 base =
     (if url0 = [] then url0
      else
        let url = trim url0
        in if is_special_url url then url
           else if js_includes url (opt_prefix config) then url
           else
             (case andThen (new_URL H url (Some (or_else base source)))
                     (\<lambda>u. uv_encodeUrl (Ultraviolet H config) (href u)) of
                Inl e \<Rightarrow> url
              | Inr t \<Rightarrow> opt_prefix config @ t))"

text \<open>The configuration the repository ships (uv.config.js).\<close>

definition uv_config :: options where
  "uv_config =
     \<lparr>opt_prefix = js ''/service/'', opt_codec = None,
      opt_encodeUrl = Some xor_encode, opt_decodeUrl = Some xor_decode,
      opt_meta = None\<rparr>"

section \<open>The service worker (sw.js)\<close>

definition PROXY_PREFIX :: jsstring where
  "PROXY_PREFIX = js ''/service/''"

definition shouldProxy :: "jsstring \<Rightarrow> bool" where
  "shouldProxy url \<longleftrightarrow>
     url \<noteq> [] \<and>
     \<not> (startsWith url (js ''data:'') \<or> startsWith url (js ''blob:'') \<or>
        startsWith url (js ''javascript:'') \<or> startsWith url (js ''about:'') \<or>
        startsWith url (js ''chrome:'') \<or> startsWith url (js ''chrome-extension:'') \<or>
        startsWith url (js ''moz-extension:'') \<or> startsWith url (js ''safari-extension:''))"

text \<open>
  \<open>createProxyUrl(originalUrl, baseUrl)\<close>. \<open>PROXY_PREFIX + encoded\<close> with
  \<open>encoded === null\<close> is the prefix followed by the text \<open>null\<close>.
\<close>

definition createProxyUrl :: "host_env \<Rightarrow> jsstring \<Rightarrow> jsstring \<Rightarrow> jsstring" where
  "createProxyUrl H originalUrl baseUrl =
     (if originalUrl = [] \<or> \<not> shouldProxy originalUrl then originalUrl
      else
        (case (if startsWith originalUrl (js ''//'')
               then andThen (new_URL H baseUrl None) (\<lambda>b. Inr (protocol b @ originalUrl))
               else if startsWith originalUrl (js ''/'')
               then andThen (new_URL H baseUrl None) (\<lambda>b. Inr (origin b @ originalUrl))
               else if \<not> startsWith originalUrl (js ''http://'') \<and>
                       \<not> startsWith originalUrl (js ''https://'')
               then andThen (new_URL H originalUrl (Some baseUrl)) (\<lambda>u. Inr (href u))
               else Inr originalUrl) of
           Inl e \<Rightarrow> originalUrl
         | Inr absolute \<Rightarrow>
             PROXY_PREFIX @ (case sw_encodeUrl absolute of None \<Rightarrow> js ''null'' | Some t \<Rightarrow> t)))"

subsection \<open>Requests, responses and headers\<close>

text \<open>
  A \<open>Headers\<close> object is a list of pairs whose names are in lower case, as the host
  keeps them; \<open>get\<close> of a missing name is \<open>null\<close>, here \<open>None\<close>.
\<close>

type_synonym headers = "(jsstring \<times> jsstring) list"

definition toLowerCase :: "jsstring \<Rightarrow> jsstring" where
  "toLowerCase s = map (\<lambda>c. if 65 \<le> c \<and> c \<le> 90 then c + 32 else c) s"

definition headers_get :: "headers \<Rightarrow> jsstring \<Rightarrow> jsstring option" where
  "headers_get hs name = map_of hs (toLowerCase name)"

fun headers_put :: "headers \<Rightarrow> jsstring \<Rightarrow> jsstring \<Rightarrow> headers" where
  "headers_put [] n v = [(n, v)]"
| "headers_put ((k, w) # hs) n v = (if k = n then (k, v) # hs else (k, w) # headers_put hs n v)"

definition headers_set :: "headers \<Rightarrow> jsstring \<Rightarrow> jsstring \<Rightarrow> headers" where
  "headers_set hs name v = headers_put hs (toLowerCase name) v"

record request =
  req_url :: jsstring
  req_method :: jsstring
  req_headers :: headers

datatype response_type = Basic | Cors | Default | Error | Opaque | OpaqueRedirect

record response =
  resp_type :: response_type
  resp_status :: nat
  resp_statusText :: jsstring
  resp_headers :: headers
  resp_body :: jsstring

text \<open>
  The worker calls \<open>fetch\<close> with \<open>redirect: 'manual'\<close>. In that mode the host does
  not hand over an answer of redirect status (301, 302, 303, 307, 308): by the Fetch
  standard the caller receives the opaque-redirect filtered response in its place, of
  type \<open>opaqueredirect\<close>, status 0, empty status text, no headers and no body. Every
  other answer arrives as it is.
\<close>

definition opaque_redirect :: response where
  "opaque_redirect =
     \<lparr>resp_type = OpaqueRedirect, resp_status = 0, resp_statusText = [], resp_headers = [],
      resp_body = []\<rparr>"

definition manual_redirect :: "response \<Rightarrow> response" where
  "manual_redirect actualResponse =
     (if resp_status actualResponse \<in> {301, 302, 303, 307, 308} then opaque_redirect
      else actualResponse)"

text \<open>The \<open>Request\<close> handed to \<open>fetch\<close>.\<close>

record proxy_request =
  preq_url :: jsstring
  preq_method :: jsstring
  preq_headers :: headers
  preq_mode :: jsstring
  preq_credentials :: jsstring
  preq_redirect :: jsstring

text \<open>
  What \<open>handleProxyRequest\<close> answers:
  \<^item> \<open>InvalidEncodedUrl\<close> is \<open>new Response('Invalid encoded URL', {status: 400})\<close>;
  \<^item> \<open>ProxyError e\<close> is the answer of the \<open>catch\<close>, of status 502, for the exception \<open>e\<close>;
  \<^item> \<open>Redirected url status\<close> is \<open>Response.redirect(url, status)\<close>, whose
    \<open>Location\<close> header the host writes from \<open>url\<close>, resolved against the worker's own URL;
  \<^item> \<open>PassedThrough status statusText headers body\<close> is the \<open>new Response\<close> at the end.
\<close>

datatype sw_response =
    InvalidEncodedUrl
  | ProxyError js_error
  | Redirected jsstring nat
  | PassedThrough nat jsstring headers jsstring

text \<open>
  \<open>Response.redirect\<close> throws \<open>TypeError\<close> when the host cannot parse the URL and
  \<open>RangeError\<close> when the status is not a redirect status; \<open>new Response\<close> throws
  \<open>RangeError\<close> for a status outside 200 to 599.
\<close>

definition Response_redirect :: "host_env \<Rightarrow> jsstring \<Rightarrow> nat \<Rightarrow> js_error + sw_response" where
  "Response_redirect H url status =
     andThen (new_URL H url (Some (location_href H)))
       (\<lambda>parsed. if status \<in> {301, 302, 303, 307, 308} then Inr (Redirected url status)
                 else Inl RangeError)"

definition Response_new :: "jsstring \<Rightarrow> nat \<Rightarrow> jsstring \<Rightarrow> headers \<Rightarrow> js_error + sw_response" where
  "Response_new body status statusText hs =
     (if 200 \<le> status \<and> status \<le> 599 then Inr (PassedThrough status statusText hs body)
      else Inl RangeError)"

subsection \<open>handleProxyRequest\<close>

definition forwardHeaders :: "jsstring list" where
  "forwardHeaders =
     [js ''accept'', js ''accept-language'', js ''content-type'', js ''range'',
      js ''if-none-match'', js ''if-modified-since'']"

text \<open>The local \<open>headers\<close>: the allow-listed request headers, then Host, Origin and Referer.\<close>

definition sw_headers :: "request \<Rightarrow> jsstring \<Rightarrow> URL \<Rightarrow> headers" where
  "sw_headers request targetUrl targetUrlObj =
     (let copied =
            foldl (\<lambda>hs header.
                     (case headers_get (req_headers request) header of
                        None \<Rightarrow> hs
                      | Some v \<Rightarrow> if v \<noteq> [] then headers_set hs header v else hs))
              [] forwardHeaders
      in headers_set
           (headers_set (headers_set copied (js ''Host'') (host targetUrlObj))
              (js ''Origin'') (origin targetUrlObj))
           (js ''Referer'') targetUrl)"

text \<open>
  \<open>new Request(request.url, {method: request.method, headers: request.headers, ...})\<close>:
  the local \<open>headers\<close> is in scope and is not what the call passes.
\<close>

definition sw_proxyRequest :: "request \<Rightarrow> headers \<Rightarrow> proxy_request" where
  "sw_proxyRequest request headers =
     \<lparr>preq_url = req_url request, preq_method = req_method request,
      preq_headers = req_headers request, preq_mode = js ''same-origin'',
      preq_credentials = js ''include'', preq_redirect = js ''manual''\<rparr>"

text \<open>The target URL: the decoded token, with the query string of the request appended.\<close>

definition sw_targetUrl :: "URL \<Rightarrow> jsstring option" where
  "sw_targetUrl url =
     (case sw_decodeUrl (drop (length PROXY_PREFIX) (pathname url)) of
        None \<Rightarrow> None
      | Some t \<Rightarrow>
          if t = [] then None
          else if search url \<noteq> [] then
            Some (t @ (if js_includes t (js ''?'') then js ''&'' else js ''?'') @ drop 1 (search url))
          else Some t)"

text \<open>The part of the \<open>try\<close> block before \<open>fetch\<close>: the request that is sent.\<close>

definition sw_request :: "host_env \<Rightarrow> request \<Rightarrow> jsstring \<Rightarrow> js_error + proxy_request" where
  "sw_request H request targetUrl =
     andThen (new_URL H targetUrl None)
       (\<lambda>targetUrlObj. Inr (sw_proxyRequest request (sw_headers request targetUrl targetUrlObj)))"

definition strippedHeaders :: "jsstring list" where
  "strippedHeaders =
     [js ''content-security-policy'', js ''x-frame-options'', js ''content-encoding'']"

text \<open>The part of the \<open>try\<close> block after \<open>fetch\<close>.\<close>

definition sw_respond :: "host_env \<Rightarrow> jsstring \<Rightarrow> response \<Rightarrow> js_error + sw_response" where
  "sw_respond H targetUrl response =
     (let passThrough =
            Response_new (resp_body response) (resp_status response) (resp_statusText response)
              (foldl (\<lambda>hs (key, v).
                        if toLowerCase key \<in> set strippedHeaders then hs else headers_set hs key v)
                 [] (resp_headers response))
      in if resp_type response = OpaqueRedirect \<or>
            resp_status response \<in> {301, 302, 303, 307, 308}
         then
           (case headers_get (resp_headers response) (js ''Location'') of
              None \<Rightarrow> passThrough
            | Some location \<Rightarrow>
                if location = [] then passThrough
                else
                  andThen (new_URL H location (Some targetUrl))
                    (\<lambda>u. Response_redirect H (createProxyUrl H (href u) targetUrl)
                            (if resp_status response = 0 then 302 else resp_status response)))
         else passThrough)"

text \<open>
  \<open>handleProxyRequest\<close>; \<open>fetch\<close> is the executor, a rejected promise being \<open>Inl\<close>.
\<close>

definition handleProxyRequest ::
  "host_env \<Rightarrow> (proxy_request \<Rightarrow> js_error + response) \<Rightarrow> request \<Rightarrow> URL \<Rightarrow> sw_response" where
  "handleProxyRequest H fetch request url =
     (case sw_targetUrl url of
        None \<Rightarrow> InvalidEncodedUrl
      | Some targetUrl \<Rightarrow>
          (case andThen (sw_request H request targetUrl)
                  (\<lambda>proxyRequest. andThen (fetch proxyRequest) (sw_respond H targetUrl)) of
             Inl e \<Rightarrow> ProxyError e
           | Inr r \<Rightarrow> r))"

section \<open>The client hooks (UVClient) and the fetch listener of the handler\<close>

text \<open>
  The values that reach \<open>fetch\<close> here: \<open>undefined\<close>, \<open>null\<close>, a string, or a plain
  object given by its fields.
\<close>

datatype js_value = Undefined | Null | Str jsstring | Obj "(string \<times> js_value) list"

record HookEvent =
  data_input :: js_value
  data_init :: js_value
  intercepted :: bool
  returnValue :: js_value

text \<open>A listener changes the event or throws.\<close>

type_synonym listener = "HookEvent \<Rightarrow> js_error + HookEvent"

text \<open>
  \<open>emit\<close> of the \<open>EventEmitter\<close> of the client:
  \<open>this._events[event].forEach(fn => fn.apply(this, args))\<close>, with nothing around the
  call of \<open>fn\<close>.
\<close>

fun client_emit :: "listener list \<Rightarrow> HookEvent \<Rightarrow> js_error + HookEvent" where
  "client_emit [] event = Inr event"
| "client_emit (fn # fns) event = andThen (fn event) (client_emit fns)"

fun arg :: "js_value list \<Rightarrow> nat \<Rightarrow> js_value" where
  "arg [] i = Undefined"
| "arg (a # as) 0 = a"
| "arg (a # as) (Suc i) = arg as i"

text \<open>
  The wrapper \<open>FetchHook.override\<close> installs in place of \<open>fetch\<close>; \<open>target\<close> is the
  original \<open>fetch\<close>.
\<close>

definition FetchHook_override ::
  "listener list \<Rightarrow> (js_value list \<Rightarrow> js_error + js_value) \<Rightarrow> js_value list \<Rightarrow>
     js_error + js_value" where
  "FetchHook_override listeners target args =
     (if args = [] then target args
      else
        andThen
          (client_emit listeners
             \<lparr>data_input = arg args 0, data_init = arg args 1,
              intercepted = False, returnValue = Undefined\<rparr>)
          (\<lambda>event. if intercepted event then Inr (returnValue event)
                    else target [data_input event, data_init event]))"

fun truthy :: "js_value \<Rightarrow> bool" where
  "truthy Undefined = False"
| "truthy Null = False"
| "truthy (Str s) = (s \<noteq> [])"
| "truthy (Obj fs) = True"

definition String_of :: "js_value \<Rightarrow> jsstring" where
  "String_of v =
     (case v of Undefined \<Rightarrow> js ''undefined'' | Null \<Rightarrow> js ''null'' | Str s \<Rightarrow> s
      | Obj fs \<Rightarrow> js ''[object Object]'')"

text \<open>\<open>rewriteUrl\<close> of the handler on any value: a falsy one is returned as it is.\<close>

definition handler_rewriteUrl_value ::
  "host_env \<Rightarrow> options \<Rightarrow> jsstring \<Rightarrow> js_value \<Rightarrow> jsstring \<Rightarrow> js_value" where
  "handler_rewriteUrl_value H config source url base =
     (if \<not> truthy url then url
      else Str (handler_rewriteUrl H config source (String_of url) base))"

text \<open>
  The listener the handler registers with \<open>client.fetch.on('request', ...)\<close>. The default
  \<open>init = {}\<close> of the destructuring stands for \<open>undefined\<close> only; reading \<open>init.headers\<close>
  of \<open>null\<close> throws, and so does, in strict mode, setting it on a string.
\<close>

definition handler_fetch_listener :: "host_env \<Rightarrow> options \<Rightarrow> jsstring \<Rightarrow> listener" where
  "handler_fetch_listener H config source event =
     (let init = (if data_init event = Undefined then Obj [] else data_init event);
          event1 = event\<lparr>data_input :=
                     handler_rewriteUrl_value H config source (data_input event) source\<rparr>
      in case init of
           Undefined \<Rightarrow> Inl TypeError
         | Null \<Rightarrow> Inl TypeError
         | Str s \<Rightarrow> Inl TypeError
         | Obj fs \<Rightarrow>
             (case map_of fs ''headers'' of
                None \<Rightarrow> Inr (event1\<lparr>data_init := Obj (fs @ [(''headers'', Obj [])])\<rparr>)
              | Some h \<Rightarrow>
                  if truthy h then Inr (event1\<lparr>data_init := init\<rparr>)
                  else Inr (event1\<lparr>data_init :=
                              Obj (map (\<lambda>(k, v). if k = ''headers'' then (k, Obj []) else (k, v)) fs)\<rparr>)))"

section \<open>A host for the closed examples\<close>

text \<open>
  The closed examples need a host. \<open>example_URL\<close> follows the URL standard on three
  shapes of input and reports every other input as unparsable:
  \<^item> \<open>http://host/path?query\<close> and \<open>https://host/path?query\<close>, the host made of lower-case
    letters and dots, the path starting with \<open>/\<close>, made of letters, digits and
    \<open>/-_%.\<close> and free of \<open>/.\<close>, \<open>%2e\<close> and \<open>%2E\<close> (so that no segment is a dot
    segment), the optional query made of letters, digits and \<open>=&-_%\<close>: such a URL is
    its own serialisation;
  \<^item> \<open>scheme:rest\<close> for a scheme of lower-case letters other than http, https, ws,
    wss, ftp, file and blob, and a rest of letters, digits and \<open>+@.,-_\<close>: a URL with an
    opaque path, again its own serialisation;
  \<^item> \<open>/path?query\<close> (not \<open>//\<close>) against a base of the first shape: the origin of
    the base followed by the input.
  Theorems about the program hold for every host; only the examples use this one.
\<close>

definition is_host_char :: "nat \<Rightarrow> bool" where
  "is_host_char c \<longleftrightarrow> (97 \<le> c \<and> c \<le> 122) \<or> c = 46"

definition is_path_char :: "nat \<Rightarrow> bool" where
  "is_path_char c \<longleftrightarrow> is_alnum c \<or> c \<in> {47, 45, 95, 37, 46}"

definition is_query_char :: "nat \<Rightarrow> bool" where
  "is_query_char c \<longleftrightarrow> is_alnum c \<or> c \<in> {61, 38, 45, 95, 37}"

definition is_opaque_char :: "nat \<Rightarrow> bool" where
  "is_opaque_char c \<longleftrightarrow> is_alnum c \<or> c \<in> {43, 64, 46, 44, 45, 95}"

definition path_and_query :: "jsstring \<Rightarrow> (jsstring \<times> jsstring) option" where
  "path_and_query s =
     (let p = takeWhile is_path_char s; q = dropWhile is_path_char s
      in if \<not> startsWith p (js ''/'') \<or> js_includes p (js ''/.'') \<or>
            js_includes p (js ''%2e'') \<or> js_includes p (js ''%2E'')
         then None
         else if q = [] then Some (p, [])
         else if hd q = 63 \<and> list_all is_query_char (tl q)
         then Some (p, if tl q = [] then [] else q)
         else None)"

definition parse_http :: "jsstring \<Rightarrow> URL option" where
  "parse_http s =
     (let scheme = (if startsWith s (js ''https://'') then js ''https:''
                    else if startsWith s (js ''http://'') then js ''http:'' else []);
          rest = drop (length scheme + 2) s;
          h = takeWhile is_host_char rest
      in if scheme = [] \<or> h = [] then None
         else
           (case path_and_query (dropWhile is_host_char rest) of
              None \<Rightarrow> None
            | Some (p, q) \<Rightarrow>
                Some \<lparr>href = s, protocol = scheme, host = h, hostname = h, pathname = p,
                      search = q, origin = scheme @ js ''//'' @ h\<rparr>))"

definition parse_opaque :: "jsstring \<Rightarrow> URL option" where
  "parse_opaque s =
     (let scheme = takeWhile (\<lambda>c. 97 \<le> c \<and> c \<le> 122) s;
          rest = dropWhile (\<lambda>c. 97 \<le> c \<and> c \<le> 122) s
      in if scheme = [] \<or> \<not> startsWith rest (js '':'') \<or> \<not> list_all is_opaque_char (tl rest) \<or>
            scheme \<in> {js ''http'', js ''https'', js ''ws'', js ''wss'', js ''ftp'', js ''file'',
                       js ''blob''}
         then None
         else Some \<lparr>href = s, protocol = scheme @ js '':'', host = [], hostname = [],
                    pathname = tl rest, search = [], origin = js ''null''\<rparr>)"

definition parse_absolute :: "jsstring \<Rightarrow> URL option" where
  "parse_absolute s = (case parse_http s of Some u \<Rightarrow> Some u | None \<Rightarrow> parse_opaque s)"

definition example_URL :: "jsstring \<Rightarrow> jsstring option \<Rightarrow> js_error + URL" where
  "example_URL url base =
     (case base of
        None \<Rightarrow> (case parse_absolute url of None \<Rightarrow> Inl TypeError | Some u \<Rightarrow> Inr u)
      | Some b \<Rightarrow>
          (case parse_absolute b of
             None \<Rightarrow> Inl TypeError
           | Some bu \<Rightarrow>
               (case parse_absolute url of
                  Some u \<Rightarrow> Inr u
                | None \<Rightarrow>
                    if startsWith url (js ''//'') \<or> host bu = [] then Inl TypeError
                    else
                      (case path_and_query url of
                         None \<Rightarrow> Inl TypeError
                       | Some (p, q) \<Rightarrow>
                           Inr \<lparr>href = origin bu @ url, protocol = protocol bu, host = host bu,
                                hostname = hostname bu, pathname = p, search = q,
                                origin = origin bu\<rparr>))))"

text \<open>A page served through the proxy, and the service worker of the proxy.\<close>

definition example_host :: host_env where
  "example_host =
     \<lparr>new_URL = example_URL,
      location_href = js ''https://proxy.example/service/hvtrs8%2F-ezaopne%2Ccmm-'',
      location_origin = js ''https://proxy.example'',
      location_protocol = js ''https:''\<rparr>"

definition example_worker :: host_env where
  "example_worker =
     \<lparr>new_URL = example_URL,
      location_href = js ''https://proxy.example/sw.js'',
      location_origin = js ''https://proxy.example'',
      location_protocol = js ''https:''\<rparr>"

section \<open>Notions used in the statements and proofs\<close>

text \<open>
  The characters a URL may contain (RFC 3986): the unreserved and the reserved
  characters and \<open>%\<close>.
\<close>

definition url_legal :: "nat \<Rightarrow> bool" where
  "url_legal c \<longleftrightarrow>
     is_alnum c \<or>
     c \<in> {45, 46, 95, 126, 58, 47, 63, 35, 91, 93, 64, 33, 36, 38, 39, 40, 41, 42, 43, 44, 59, 61, 37}"

text \<open>
  The base64 text of \<open>btoa\<close> split into its characters of the alphabet and its padding.
\<close>

fun b64_unpadded :: "nat list \<Rightarrow> jsstring" where
  "b64_unpadded [] = []"
| "b64_unpadded [a] = [b64char (a div 4), b64char ((a mod 4) * 16)]"
| "b64_unpadded [a, b] =
     [b64char (a div 4), b64char ((a mod 4) * 16 + b div 16), b64char ((b mod 16) * 4)]"
| "b64_unpadded (a # b # c # r) =
     [b64char (a div 4), b64char ((a mod 4) * 16 + b div 16),
      b64char ((b mod 16) * 4 + c div 64), b64char (c mod 64)] @ b64_unpadded r"

fun b64_padding :: "nat list \<Rightarrow> jsstring" where
  "b64_padding [] = []"
| "b64_padding [a] = [61, 61]"
| "b64_padding [a, b] = [61]"
| "b64_padding (a # b # c # r) = b64_padding r"

definition is_b64 :: "nat \<Rightarrow> bool" where
  "is_b64 c \<longleftrightarrow> is_alnum c \<or> c = 43 \<or> c = 47"

text \<open>
  The token of the \<open>base64\<close> strategy in the words of the specification: the
  percent-encoded URL in base64, in the URL-safe alphabet and without padding.
\<close>

definition spec_base64_token :: "jsstring \<Rightarrow> jsstring option" where
  "spec_base64_token url =
     (case andThen (encodeURIComponent url) btoa of
        Inl e \<Rightarrow> None
      | Inr b \<Rightarrow> Some (remove_all 61 (replace_all 47 95 (replace_all 43 45 b))))"

text \<open>The cookie and the contexts of the examples.\<close>

definition example_cookie :: "jsstring \<Rightarrow> cookie" where
  "example_cookie domain =
     \<lparr>cookie_name = js ''sid'', cookie_value = js ''1'', cookie_domain = domain,
      cookie_path = js ''/'', cookie_secure = False, cookie_httpOnly = False\<rparr>"

definition context_at :: "jsstring \<Rightarrow> meta" where
  "context_at url = \<lparr>meta_base = [], meta_origin = [], meta_url = url\<rparr>"

text \<open>
  The request of the examples and its URL, and the answer the backend sends to it: a 302
  with a \<open>Location\<close>. The worker sees that answer through \<open>manual_redirect\<close>.
\<close>

definition example_request :: request where
  "example_request =
     \<lparr>req_url = js ''https://proxy.example/service/aHR0cHM6Ly9leGFtcGxlLmNvbS9vbGQ'',
      req_method = js ''GET'',
      req_headers = [(js ''accept'', js ''text/html''), (js ''x-secret'', js ''1'')]\<rparr>"

definition example_request_URL :: URL where
  "example_request_URL =
     \<lparr>href = js ''https://proxy.example/service/aHR0cHM6Ly9leGFtcGxlLmNvbS9vbGQ'',
      protocol = js ''https:'', host = js ''proxy.example'', hostname = js ''proxy.example'',
      pathname = js ''/service/aHR0cHM6Ly9leGFtcGxlLmNvbS9vbGQ'', search = [],
      origin = js ''https://proxy.example''\<rparr>"

definition example_upstream :: "jsstring \<Rightarrow> response" where
  "example_upstream location =
     \<lparr>resp_type = Basic, resp_status = 302, resp_statusText = js ''Found'',
      resp_headers = [(js ''location'', location)], resp_body = []\<rparr>"

section \<open>Properties\<close>

subsection \<open>String functions\<close>

lemma startsWith_iff: "startsWith s p \<longleftrightarrow> (\<exists>r. s = p @ r)"
  by (induction s p rule: startsWith.induct) auto

lemma js_includes_iff: "js_includes s p \<longleftrightarrow> (\<exists>a b. s = a @ p @ b)"
proof (induction s)
  case Nil
  then show ?case by simp
next
  case (Cons c cs)
  show ?case
  proof
    assume "js_includes (c # cs) p"
    then consider "startsWith (c # cs) p" | "js_includes cs p" by auto
    then show "\<exists>a b. c # cs = a @ p @ b"
    proof cases
      case 1
      then obtain r where "c # cs = p @ r" by (auto simp: startsWith_iff)
      then have "c # cs = [] @ p @ r" by simp
      then show ?thesis by blast
    next
      case 2
      then obtain a b where "cs = a @ p @ b" using Cons.IH by blast
      then have "c # cs = (c # a) @ p @ b" by simp
      then show ?thesis by blast
    qed
  next
    assume "\<exists>a b. c # cs = a @ p @ b"
    then obtain a b where ab: "c # cs = a @ p @ b" by blast
    show "js_includes (c # cs) p"
    proof (cases a)
      case Nil
      then have "startsWith (c # cs) p" using ab by (auto simp: startsWith_iff)
      then show ?thesis by simp
    next
      case (Cons x xs)
      then have "cs = xs @ p @ b" using ab by simp
      then have "js_includes cs p" using Cons.IH by blast
      then show ?thesis by simp
    qed
  qed
qed

subsection \<open>Percent-encoding\<close>

lemma url_legal_ascii: "url_legal c \<Longrightarrow> c < 128"
  by (auto simp: url_legal_def is_alnum_def)

lemma hexval_hexdig: "n < 16 \<Longrightarrow> hexval (hexdig n) = Some n"
  by (auto simp: hexval_def hexdig_def)

lemma hexdig_not_u: "n < 16 \<Longrightarrow> hexdig n \<noteq> 117"
  by (auto simp: hexdig_def)

lemma hex_octet_pct:
  assumes "b < 256"
  shows "hex_octet (hexdig (b div 16)) (hexdig (b mod 16)) = Some b"
proof -
  have "b div 16 < 16" using assms by simp
  then show ?thesis
    by (simp add: hex_octet_def hexval_hexdig)
qed

lemma decode_pct:
  assumes "b < 128"
  shows "decodeURIComponent (pct b @ rest) = emit [b] (decodeURIComponent rest)"
proof -
  have "hex_octet (hexdig (b div 16)) (hexdig (b mod 16)) = Some b"
    using assms by (simp add: hex_octet_pct)
  moreover have "leading_ones b = 0"
    using assms by (simp add: leading_ones_def)
  ultimately show ?thesis
    by (simp add: pct_def)
qed

lemma decode_plain:
  "c \<noteq> 37 \<Longrightarrow> decodeURIComponent (c # rest) = emit [c] (decodeURIComponent rest)"
  by simp

lemma uriUnescaped_not_pct: "uriUnescaped c \<Longrightarrow> c \<noteq> 37"
  by (auto simp: uriUnescaped_def is_alnum_def)

lemma escapeUnescaped_not_pct: "escapeUnescaped c \<Longrightarrow> c \<noteq> 37"
  by (auto simp: escapeUnescaped_def is_alnum_def)

text \<open>On ASCII, encodeURIComponent works character by character.\<close>

lemma encodeURIComponent_ascii:
  assumes "\<forall>c \<in> set s. c < 128"
  shows "encodeURIComponent s = Inr (concat (map (\<lambda>c. if uriUnescaped c then [c] else pct c) s))"
  using assms
proof (induction s)
  case Nil
  then show ?case by simp
next
  case (Cons c cs)
  then have c: "c < 128" by simp
  then have "\<not> is_low_surrogate c" "\<not> is_high_surrogate c" "utf8 c = [c]"
    by (simp_all add: is_low_surrogate_def is_high_surrogate_def utf8_def)
  then show ?case
    using Cons by simp
qed

lemma decode_percent_encoded:
  assumes "\<forall>c \<in> set s. c < 128" and "\<forall>c. keep c \<longrightarrow> c \<noteq> 37"
  shows "decodeURIComponent (concat (map (\<lambda>c. if keep c then [c] else pct c) s)) = Inr s"
  using assms(1)
proof (induction s)
  case Nil
  then show ?case by simp
next
  case (Cons c cs)
  then have IH: "decodeURIComponent (concat (map (\<lambda>c. if keep c then [c] else pct c) cs)) = Inr cs"
    and c: "c < 128" by simp_all
  show ?case
  proof (cases "keep c")
    case True
    then have "c \<noteq> 37" using assms(2) by blast
    then show ?thesis using True IH by simp
  next
    case False
    then show ?thesis using IH decode_pct [OF c] by simp
  qed
qed

lemma escape_ascii:
  assumes "\<forall>c \<in> set s. c < 128"
  shows "escape s = concat (map (\<lambda>c. if escapeUnescaped c then [c] else pct c) s)"
proof -
  have "escape1 c = (if escapeUnescaped c then [c] else pct c)" if "c \<in> set s" for c
    using that assms by (auto simp: escape1_def)
  then show ?thesis
    by (simp add: escape_def cong: map_cong)
qed

lemma unescape_pct:
  assumes "b < 256"
  shows "unescape (pct b @ rest) = b # unescape rest"
proof -
  have h: "hex_octet (hexdig (b div 16)) (hexdig (b mod 16)) = Some b"
    using assms by (simp add: hex_octet_pct)
  have u: "hexdig (b div 16) \<noteq> 117"
    using assms by (simp add: hexdig_not_u)
  show ?thesis
  proof (cases rest)
    case Nil
    then show ?thesis using h by (simp add: pct_def)
  next
    case (Cons r1 rest1)
    note c1 = this
    show ?thesis
    proof (cases rest1)
      case Nil
      then show ?thesis using h c1 by (simp add: pct_def)
    next
      case (Cons r2 rest2)
      note c2 = this
      show ?thesis
      proof (cases rest2)
        case Nil
        then show ?thesis using h c1 c2 by (simp add: pct_def)
      next
        case (Cons r3 rest3)
        then show ?thesis using h u c1 c2 by (simp add: pct_def)
      qed
    qed
  qed
qed

lemma unescape_percent_encoded:
  assumes "\<forall>c \<in> set s. c < 128" and "\<forall>c. keep c \<longrightarrow> c \<noteq> 37"
  shows "unescape (concat (map (\<lambda>c. if keep c then [c] else pct c) s)) = s"
  using assms(1)
proof (induction s)
  case Nil
  then show ?case by simp
next
  case (Cons c cs)
  then have IH: "unescape (concat (map (\<lambda>c. if keep c then [c] else pct c) cs)) = cs"
    and c: "c < 256" by simp_all
  show ?case
  proof (cases "keep c")
    case True
    then have "c \<noteq> 37" using assms(2) by blast
    then show ?thesis using True IH by simp
  next
    case False
    then show ?thesis using IH unescape_pct [OF c] by simp
  qed
qed

lemma percent_encoded_nonempty:
  "s \<noteq> [] \<Longrightarrow> concat (map (\<lambda>c. if keep c then [c] else pct c) s) \<noteq> []"
  by (cases s) (auto simp: pct_def)

lemma plain_roundtrip:
  assumes "\<forall>c \<in> set s. c < 128"
  shows "andThen (plain_encode s) plain_decode = Inr s"
proof (cases "s = []")
  case True
  then show ?thesis by (simp add: plain_encode_def plain_decode_def)
next
  case False
  define e where "e = concat (map (\<lambda>c. if uriUnescaped c then [c] else pct c) s)"
  have ne: "e \<noteq> []"
    unfolding e_def using False by (rule percent_encoded_nonempty)
  have enc: "plain_encode s = Inr e"
    using False assms by (simp add: plain_encode_def encodeURIComponent_ascii e_def)
  have "decodeURIComponent e = Inr s"
    unfolding e_def using assms by (intro decode_percent_encoded) (auto dest: uriUnescaped_not_pct)
  then have dec: "plain_decode e = Inr s"
    using ne by (simp add: plain_decode_def)
  show ?thesis
    by (simp add: enc dec)
qed

text \<open>The xor pass keeps ASCII and undoes itself.\<close>

lemma xor2_ascii: "(c::nat) < 128 \<Longrightarrow> c XOR 2 < 128"
proof -
  assume c: "c < 128"
  have "int c XOR 2 < 2 ^ 7"
    by (rule XOR_upper) (use c in simp_all)
  then have "int (c XOR 2) < 128"
    by (simp add: of_nat_xor_eq)
  then show ?thesis by simp
qed

lemma xor2_twice: "((c::nat) XOR 2) XOR 2 = c"
  by (simp add: xor.assoc)

lemma xor_loop_ascii:
  "\<forall>c \<in> set s. c < 128 \<Longrightarrow> \<forall>c \<in> set (xor_loop i s). c < 128"
proof (induction s arbitrary: i)
  case Nil
  then show ?case by simp
next
  case (Cons c cs)
  then have "c XOR 2 < 128" by (simp add: xor2_ascii)
  then show ?case using Cons by simp
qed

lemma xor_loop_twice:
  "\<forall>c \<in> set s. c < 128 \<Longrightarrow> xor_loop i (xor_loop i s) = s"
proof (induction s arbitrary: i)
  case Nil
  then show ?case by simp
next
  case (Cons c cs)
  then have "c XOR 2 < 128" by (simp add: xor2_ascii)
  then have "(c XOR 2) mod 65536 = c XOR 2" by simp
  then show ?case using Cons by (simp add: xor2_twice)
qed

lemma xor_loop_nonempty: "s \<noteq> [] \<Longrightarrow> xor_loop i s \<noteq> []"
  by (cases s) simp_all

lemma xor_roundtrip:
  assumes "\<forall>c \<in> set s. c < 128"
  shows "andThen (xor_encode s) xor_decode = Inr s"
proof (cases "s = []")
  case True
  then show ?thesis by (simp add: xor_encode_def xor_decode_def)
next
  case False
  define x where "x = xor_loop 0 s"
  define e where "e = concat (map (\<lambda>c. if uriUnescaped c then [c] else pct c) x)"
  have xa: "\<forall>c \<in> set x. c < 128"
    unfolding x_def using assms by (rule xor_loop_ascii)
  have "x \<noteq> []"
    unfolding x_def using False by (rule xor_loop_nonempty)
  then have ne: "e \<noteq> []"
    unfolding e_def by (rule percent_encoded_nonempty)
  have enc: "xor_encode s = Inr e"
    using False xa by (simp add: xor_encode_def encodeURIComponent_ascii e_def x_def)
  have "decodeURIComponent e = Inr x"
    unfolding e_def using xa by (intro decode_percent_encoded) (auto dest: uriUnescaped_not_pct)
  then have dec: "xor_decode e = Inr s"
    using ne assms by (simp add: xor_decode_def x_def xor_loop_twice)
  show ?thesis
    by (simp add: enc dec)
qed

lemma b64_encode_split: "b64_encode s = b64_unpadded s @ b64_padding s"
  by (induction s rule: b64_encode.induct) simp_all

lemma b64val_b64char: "n < 64 \<Longrightarrow> b64val (b64char n) = Some n"
  by (auto simp: b64val_def b64char_def)

lemma b64char_alphabet: "is_alnum (b64char n) \<or> b64char n = 43 \<or> b64char n = 47"
  by (auto simp: b64char_def is_alnum_def)

lemma b64_unpadded_alphabet: "\<forall>c \<in> set (b64_unpadded s). is_b64 c"
  by (induction s rule: b64_unpadded.induct) (simp_all add: is_b64_def b64char_alphabet)

lemma is_b64_D:
  "is_b64 c \<Longrightarrow> c \<noteq> 61 \<and> c \<noteq> 45 \<and> c \<noteq> 95 \<and> \<not> is_ascii_whitespace c"
  by (auto simp: is_b64_def is_alnum_def is_ascii_whitespace_def)

lemma b64_padding_cases: "b64_padding s = [] \<or> b64_padding s = [61] \<or> b64_padding s = [61, 61]"
  by (induction s rule: b64_padding.induct) simp_all

lemma b64_unpadded_length: "length (b64_unpadded s) mod 4 \<noteq> 1"
  by (induction s rule: b64_unpadded.induct) simp_all

lemma b64_encode_length: "length (b64_encode s) mod 4 = 0"
  by (induction s rule: b64_encode.induct) simp_all

lemma three_eq:
  fixes a b c :: nat
  shows "((a div 4 * 64 + ((a mod 4) * 16 + b div 16)) * 64 + ((b mod 16) * 4 + c div 64)) * 64 + c mod 64
     = a * 65536 + b * 256 + c"
proof -
  define q1 r1 q2 r2 q3 r3
    where "q1 = a div 4" and "r1 = a mod 4" and "q2 = b div 16" and "r2 = b mod 16"
      and "q3 = c div 64" and "r3 = c mod 64"
  have "a = 4 * q1 + r1" "b = 16 * q2 + r2" "c = 64 * q3 + r3"
    by (simp_all add: q1_def r1_def q2_def r2_def q3_def r3_def)
  then have "((q1 * 64 + (r1 * 16 + q2)) * 64 + (r2 * 4 + q3)) * 64 + r3 = a * 65536 + b * 256 + c"
    by simp
  then show ?thesis
    by (simp only: q1_def r1_def q2_def r2_def q3_def r3_def)
qed

lemma two_eq:
  fixes a b :: nat
  shows "(a div 4 * 64 + ((a mod 4) * 16 + b div 16)) * 64 + (b mod 16) * 4 = a * 1024 + b * 4"
proof -
  define q1 r1 q2 r2
    where "q1 = a div 4" and "r1 = a mod 4" and "q2 = b div 16" and "r2 = b mod 16"
  have "a = 4 * q1 + r1" "b = 16 * q2 + r2"
    by (simp_all add: q1_def r1_def q2_def r2_def)
  then have "(q1 * 64 + (r1 * 16 + q2)) * 64 + r2 * 4 = a * 1024 + b * 4"
    by simp
  then show ?thesis
    by (simp only: q1_def r1_def q2_def r2_def)
qed

lemma one_eq:
  fixes a :: nat
  shows "(a div 4 * 64 + (a mod 4) * 16) div 16 = a"
proof -
  define q1 r1 where "q1 = a div 4" and "r1 = a mod 4"
  have "a = 4 * q1 + r1"
    by (simp add: q1_def r1_def)
  then have "q1 * 64 + r1 * 16 = a * 16"
    by simp
  then have "a div 4 * 64 + (a mod 4) * 16 = a * 16"
    by (simp only: q1_def r1_def)
  then show ?thesis by simp
qed

lemma split3:
  fixes a b c :: nat
  assumes "a < 256" "b < 256" "c < 256" and n: "n = a * 65536 + b * 256 + c"
  shows "n div 65536 = a" and "(n div 256) mod 256 = b" and "n mod 256 = c"
proof -
  define m where "m = a * 256 + b"
  have n1: "n = a * 65536 + (b * 256 + c)" and n2: "n = m * 256 + c"
    using n by (simp_all add: m_def)
  have "b * 256 + c < 65536" using assms(2,3) by linarith
  then show "n div 65536 = a" unfolding n1 by simp
  have "n div 256 = m" unfolding n2 using assms(3) by simp
  then show "(n div 256) mod 256 = b" using assms(2) by (simp add: m_def)
  show "n mod 256 = c" unfolding n2 using assms(3) by simp
qed

lemma split2:
  fixes a b :: nat
  assumes "a < 256" "b < 256" and n: "n = a * 1024 + b * 4"
  shows "n div 1024 = a" and "(n div 4) mod 256 = b"
proof -
  define m where "m = a * 256 + b"
  have n2: "n = m * 4" using n by (simp add: m_def)
  have "b * 4 < 1024" using assms(2) by linarith
  then show "n div 1024 = a" unfolding n by simp
  have "n div 4 = m" unfolding n2 by simp
  then show "(n div 4) mod 256 = b" using assms(2) by (simp add: m_def)
qed

lemma sextets_append:
  "sextets xs = Some vs \<Longrightarrow> sextets ys = Some ws \<Longrightarrow> sextets (xs @ ys) = Some (vs @ ws)"
  by (induction xs arbitrary: vs) (auto split: option.splits)

lemma b64_decode_unpadded:
  assumes "\<forall>c \<in> set s. c < 256"
  shows "\<exists>vs. sextets (b64_unpadded s) = Some vs \<and> b64_decode vs = s"
  using assms
proof (induction s rule: b64_unpadded.induct)
  case 1
  then show ?case by simp
next
  case (2 a)
  then have "a div 4 < 64" "(a mod 4) * 16 < 64" by simp_all
  then show ?case
    by (simp add: b64val_b64char one_eq)
next
  case (3 a b)
  then have a: "a < 256" and b: "b < 256" by simp_all
  then have "a div 4 < 64" "(a mod 4) * 16 + b div 16 < 64" "(b mod 16) * 4 < 64"
    by simp_all
  moreover note split2 [OF a b two_eq]
  ultimately show ?case
    by (simp add: b64val_b64char)
next
  case (4 a b c r)
  then have a: "a < 256" and b: "b < 256" and c: "c < 256" by simp_all
  from 4 obtain vs where vs: "sextets (b64_unpadded r) = Some vs" "b64_decode vs = r"
    by auto
  have "a div 4 < 64" "(a mod 4) * 16 + b div 16 < 64" "(b mod 16) * 4 + c div 64 < 64" "c mod 64 < 64"
    using a b c by simp_all
  moreover note split3 [OF a b c three_eq]
  ultimately show ?case
    using vs by (simp add: b64val_b64char)
qed

lemma not_startsWith_rev:
  assumes "\<forall>c \<in> set u. c \<noteq> x"
  shows "\<not> startsWith (rev u) (x # p)"
proof (cases u rule: rev_cases)
  case Nil
  then show ?thesis by simp
next
  case (snoc ys y)
  then have "y \<noteq> x" using assms by simp
  then show ?thesis using snoc by simp
qed

lemma strip_padding_b64_encode: "strip_padding (b64_encode s) = b64_unpadded s"
proof -
  define u where "u = b64_unpadded s"
  have "\<forall>c \<in> set u. c \<noteq> 61"
    unfolding u_def using b64_unpadded_alphabet [of s] is_b64_D by blast
  then have no: "\<not> startsWith (rev u) (61 # p)" for p
    by (rule not_startsWith_rev)
  have len: "length (b64_encode s) mod 4 = 0"
    by (rule b64_encode_length)
  consider "b64_padding s = []" | "b64_padding s = [61]" | "b64_padding s = [61, 61]"
    using b64_padding_cases by blast
  then show ?thesis
  proof cases
    case 1
    then have e: "b64_encode s = u" by (simp add: b64_encode_split u_def)
    have "\<not> endsWith u [61, 61]" "\<not> endsWith u [61]"
      using no by (simp_all add: endsWith_def)
    then have "strip_padding u = u"
      by (simp add: strip_padding_def)
    then show ?thesis by (simp add: e u_def)
  next
    case 2
    then have e: "b64_encode s = u @ [61]" by (simp add: b64_encode_split u_def)
    have "\<not> endsWith (u @ [61]) [61, 61]" "endsWith (u @ [61]) [61]"
      using no by (simp_all add: endsWith_def)
    moreover have "length (u @ [61]) mod 4 = 0"
      using len by (simp only: e)
    ultimately have "strip_padding (u @ [61]) = u"
      by (simp add: strip_padding_def)
    then show ?thesis by (simp add: e u_def)
  next
    case 3
    then have e: "b64_encode s = u @ [61, 61]" by (simp add: b64_encode_split u_def)
    have "endsWith (u @ [61, 61]) [61, 61]"
      by (simp add: endsWith_def)
    moreover have "length (u @ [61, 61]) mod 4 = 0"
      using len by (simp only: e)
    moreover have "butlast (butlast (u @ [61, 61])) = u"
      by (simp add: butlast_append)
    ultimately have "strip_padding (u @ [61, 61]) = u"
      by (simp add: strip_padding_def)
    then show ?thesis by (simp add: e u_def)
  qed
qed

lemma b64_encode_no_whitespace:
  "filter (\<lambda>c. \<not> is_ascii_whitespace c) (b64_encode s) = b64_encode s"
proof -
  have "\<not> is_ascii_whitespace c" if "c \<in> set (b64_encode s)" for c
  proof -
    have "c \<in> set (b64_unpadded s) \<or> c \<in> set (b64_padding s)"
      using that by (simp add: b64_encode_split)
    moreover have "c = 61" if "c \<in> set (b64_padding s)"
      using that b64_padding_cases [of s] by auto
    moreover have "\<not> is_ascii_whitespace 61"
      by (simp add: is_ascii_whitespace_def)
    ultimately show ?thesis
      using b64_unpadded_alphabet [of s] is_b64_D by blast
  qed
  then show ?thesis by simp
qed

lemma atob_b64_encode:
  assumes "\<forall>c \<in> set s. c < 256"
  shows "atob (b64_encode s) = Inr s"
proof -
  obtain vs where "sextets (b64_unpadded s) = Some vs" "b64_decode vs = s"
    using b64_decode_unpadded [OF assms] by blast
  then show ?thesis
    using b64_unpadded_length [of s]
    by (simp add: atob_def b64_encode_no_whitespace strip_padding_b64_encode)
qed

lemma btoa_latin1: "\<forall>c \<in> set s. c < 256 \<Longrightarrow> btoa s = Inr (b64_encode s)"
  by (auto simp: btoa_def)

lemma pct_ascii: "b < 256 \<Longrightarrow> \<forall>c \<in> set (pct b). c < 128"
proof -
  assume "b < 256"
  then have "b div 16 < 16" by simp
  then show ?thesis by (auto simp: pct_def hexdig_def)
qed

lemma percent_encoded_ascii:
  assumes "\<forall>c \<in> set s. c < 128"
  shows "\<forall>c \<in> set (concat (map (\<lambda>c. if keep c then [c] else pct c) s)). c < 128"
proof -
  have "\<forall>d \<in> set (if keep c then [c] else pct c). d < 128" if "c \<in> set s" for c
  proof -
    from that assms have "c < 256" "c < 128" by auto
    then show ?thesis using pct_ascii [of c] by auto
  qed
  then show ?thesis by auto
qed

lemma base64_roundtrip:
  assumes "\<forall>c \<in> set s. c < 128"
  shows "andThen (base64_encode s) base64_decode = Inr s"
proof (cases "s = []")
  case True
  then show ?thesis by (simp add: base64_encode_def base64_decode_def)
next
  case False
  define e where "e = concat (map (\<lambda>c. if uriUnescaped c then [c] else pct c) s)"
  have ea: "\<forall>c \<in> set e. c < 128"
    unfolding e_def using assms by (rule percent_encoded_ascii)
  then have el: "\<forall>c \<in> set e. c < 256" by auto
  have ne: "e \<noteq> []"
    unfolding e_def using False by (rule percent_encoded_nonempty)
  then have ne64: "b64_encode e \<noteq> []"
    by (cases e rule: b64_encode.cases) simp_all
  have enc: "base64_encode s = Inr (b64_encode e)"
    using False assms el by (simp add: base64_encode_def encodeURIComponent_ascii e_def [symmetric] btoa_latin1)
  have "decodeURIComponent e = Inr s"
    unfolding e_def using assms by (intro decode_percent_encoded) (auto dest: uriUnescaped_not_pct)
  then have dec: "base64_decode (b64_encode e) = Inr s"
    using ne64 el by (simp add: base64_decode_def atob_b64_encode)
  show ?thesis
    by (simp add: enc dec)
qed

lemma add_padding_eq: "add_padding p = p @ replicate ((4 - length p mod 4) mod 4) 61"
proof (induction p rule: add_padding.induct)
  case (1 padded)
  show ?case
  proof (cases "length padded mod 4 = 0")
    case True
    then show ?thesis by (subst add_padding.simps) simp
  next
    case False
    then have "add_padding padded = add_padding (padded @ [61])"
      by (subst add_padding.simps) simp
    also have "\<dots> = (padded @ [61]) @ replicate ((4 - length (padded @ [61]) mod 4) mod 4) 61"
      using False by (rule "1.IH")
    also have "\<dots> = padded @ replicate (Suc ((4 - Suc (length padded) mod 4) mod 4)) 61"
      by simp
    also have "Suc ((4 - Suc (length padded) mod 4) mod 4) = (4 - length padded mod 4) mod 4"
      using False by (simp add: mod_Suc) arith
    finally show ?thesis .
  qed
qed

lemma b64_padding_eq:
  "b64_padding s = replicate ((4 - length (b64_unpadded s) mod 4) mod 4) 61"
  by (induction s rule: b64_unpadded.induct) (simp_all add: numeral_2_eq_2)

lemma add_padding_b64_unpadded: "add_padding (b64_unpadded s) = b64_encode s"
  by (simp only: add_padding_eq b64_padding_eq [symmetric] b64_encode_split)

lemma urlsafe_padding:
  "\<forall>c \<in> set p. c = 61 \<Longrightarrow> remove_all 61 (replace_all 47 95 (replace_all 43 45 p)) = []"
  by (induction p) (simp_all add: remove_all_def replace_all_def)

lemma urlsafe_no_padding:
  assumes "\<forall>c \<in> set u. is_b64 c"
  shows "remove_all 61 (replace_all 47 95 (replace_all 43 45 u)) =
           replace_all 47 95 (replace_all 43 45 u)"
  using assms
proof (induction u)
  case Nil
  then show ?case by (simp add: remove_all_def replace_all_def)
next
  case (Cons c cs)
  then have "is_b64 c" by simp
  then have "c \<noteq> 61" using is_b64_D by blast
  then show ?case
    using Cons by (simp add: remove_all_def replace_all_def)
qed

lemma urlsafe_unpadded:
  assumes "\<forall>c \<in> set u. is_b64 c" and "\<forall>c \<in> set p. c = 61"
  shows "remove_all 61 (replace_all 47 95 (replace_all 43 45 (u @ p))) =
           replace_all 47 95 (replace_all 43 45 u)"
proof -
  have "remove_all 61 (replace_all 47 95 (replace_all 43 45 (u @ p))) =
      remove_all 61 (replace_all 47 95 (replace_all 43 45 u)) @
      remove_all 61 (replace_all 47 95 (replace_all 43 45 p))"
    by (simp add: remove_all_def replace_all_def)
  then show ?thesis
    by (simp only: urlsafe_padding [OF assms(2)] urlsafe_no_padding [OF assms(1)] append_Nil2)
qed

lemma urlsafe_back:
  assumes "\<forall>c \<in> set u. is_b64 c"
  shows "replace_all 95 47 (replace_all 45 43 (replace_all 47 95 (replace_all 43 45 u))) = u"
  using assms
proof (induction u)
  case Nil
  then show ?case by (simp add: replace_all_def)
next
  case (Cons c cs)
  then have "is_b64 c" by simp
  then have "c \<noteq> 45" "c \<noteq> 95" using is_b64_D by blast+
  then show ?case
    using Cons by (simp add: replace_all_def)
qed

lemma sw_roundtrip:
  assumes "\<forall>c \<in> set s. c < 128"
  shows "Option.bind (sw_encodeUrl s) sw_decodeUrl = Some s"
proof -
  define t where "t = replace_all 47 95 (replace_all 43 45 (b64_unpadded s))"
  have l: "\<forall>c \<in> set s. c < 256" using assms by auto
  have "unescape (concat (map (\<lambda>c. if uriUnescaped c then [c] else pct c) s)) = s"
    using assms by (intro unescape_percent_encoded) (auto dest: uriUnescaped_not_pct)
  then have "andThen (encodeURIComponent s) (\<lambda>p. btoa (unescape p)) = Inr (b64_encode s)"
    using assms l by (simp add: encodeURIComponent_ascii btoa_latin1)
  moreover have "remove_all 61 (replace_all 47 95 (replace_all 43 45 (b64_encode s))) = t"
    unfolding t_def b64_encode_split
    using b64_unpadded_alphabet [of s] b64_padding_cases [of s]
    by (intro urlsafe_unpadded) auto
  ultimately have enc: "sw_encodeUrl s = Some t"
    by (simp add: sw_encodeUrl_def)
  have "replace_all 95 47 (replace_all 45 43 t) = b64_unpadded s"
    unfolding t_def using b64_unpadded_alphabet [of s] by (rule urlsafe_back)
  then have "add_padding (replace_all 95 47 (replace_all 45 43 t)) = b64_encode s"
    by (simp add: add_padding_b64_unpadded)
  moreover have "decodeURIComponent (escape s) = Inr s"
    unfolding escape_ascii [OF assms]
    using assms by (intro decode_percent_encoded) (auto dest: escapeUnescaped_not_pct)
  ultimately have dec: "sw_decodeUrl t = Some s"
    using l by (simp add: sw_decodeUrl_def atob_b64_encode)
  show ?thesis
    by (simp add: enc dec)
qed

subsection \<open>Round trips of the codecs\<close>

text \<open>
  C1. For each of the codecs \<open>none\<close>, \<open>plain\<close>, \<open>xor\<close> and \<open>base64\<close> of the bundle, and
  for \<open>encodeUrl\<close> and \<open>decodeUrl\<close> of the service worker, encoding a string of
  URL-legal characters succeeds and decoding the token gives the string back.
\<close>

theorem codec_roundtrip:
  assumes "list_all url_legal s"
  shows "andThen (codec_encode codec s) (codec_decode codec) = Inr s \<and>
         Option.bind (sw_encodeUrl s) sw_decodeUrl = Some s"
proof -
  have a: "\<forall>c \<in> set s. c < 128"
    using assms url_legal_ascii by (auto simp: list_all_iff)
  have "andThen (codec_encode codec s) (codec_decode codec) = Inr s"
  proof (cases codec)
    case CodecNone
    then show ?thesis by (simp add: none_encode_def none_decode_def)
  next
    case CodecPlain
    then show ?thesis using a by (simp add: plain_roundtrip)
  next
    case CodecXor
    then show ?thesis using a by (simp add: xor_roundtrip)
  next
    case CodecBase64
    then show ?thesis using a by (simp add: base64_roundtrip)
  qed
  moreover have "Option.bind (sw_encodeUrl s) sw_decodeUrl = Some s"
    using a by (rule sw_roundtrip)
  ultimately show ?thesis by simp
qed

theorem codec_roundtrip_witness:
  "list_all url_legal (js ''https://example.com/a?b=1'') \<and>
   (\<forall>codec. andThen (codec_encode codec (js ''https://example.com/a?b=1'')) (codec_decode codec)
             = Inr (js ''https://example.com/a?b=1'')) \<and>
   Option.bind (sw_encodeUrl (js ''https://example.com/a?b=1'')) sw_decodeUrl
     = Some (js ''https://example.com/a?b=1'')"
proof -
  have h: "list_all url_legal (js ''https://example.com/a?b=1'')"
    by (simp add: js_def url_legal_def is_alnum_def)
  show ?thesis
    using h codec_roundtrip [OF h] by simp
qed

subsection \<open>The tokens of the service worker, and tokens that do not decode\<close>

lemma set_remove_all: "set (remove_all a s) = set s - {a}"
  by (auto simp: remove_all_def)

lemma set_replace_all: "a \<noteq> b \<Longrightarrow> a \<notin> set (replace_all a b s)"
  by (auto simp: replace_all_def)

lemma set_replace_all_subset: "set (replace_all a b s) \<subseteq> insert b (set s)"
  by (auto simp: replace_all_def)

lemma sw_encodeUrl_urlsafe:
  assumes "sw_encodeUrl url = Some t"
  shows "43 \<notin> set t \<and> 47 \<notin> set t \<and> 61 \<notin> set t"
proof -
  obtain b where t: "t = remove_all 61 (replace_all 47 95 (replace_all 43 45 b))"
    using assms by (auto simp: sw_encodeUrl_def split: sum.splits)
  have "43 \<notin> set (replace_all 43 45 b)"
    by (rule set_replace_all) simp
  then have "43 \<notin> set (replace_all 47 95 (replace_all 43 45 b))"
    using set_replace_all_subset [of 47 95 "replace_all 43 45 b"] by auto
  moreover have "47 \<notin> set (replace_all 47 95 (replace_all 43 45 b))"
    by (rule set_replace_all) simp
  ultimately show ?thesis
    by (simp add: t set_remove_all)
qed

lemma add_padding_length: "length (add_padding p) mod 4 = 0"
proof (induction p rule: add_padding.induct)
  case (1 padded)
  show ?case
  proof (cases "length padded mod 4 = 0")
    case True
    then show ?thesis by (subst add_padding.simps) simp
  next
    case False
    then have "add_padding padded = add_padding (padded @ [61])"
      by (subst add_padding.simps) simp
    then show ?thesis using False "1.IH" by simp
  qed
qed



lemma endsWith_iff: "endsWith s p \<longleftrightarrow> (\<exists>r. s = r @ p)"
proof
  assume "endsWith s p"
  then obtain r where "rev s = rev p @ r"
    by (auto simp: endsWith_def startsWith_iff)
  then have "rev (rev s) = rev (rev p @ r)" by simp
  then have "s = rev r @ p" by simp
  then show "\<exists>r. s = r @ p" by blast
next
  assume "\<exists>r. s = r @ p"
  then show "endsWith s p"
    by (auto simp: endsWith_def startsWith_iff)
qed









lemma emit_Inl: "r = Inl e \<Longrightarrow> emit xs r = Inl e"
  by simp






subsection \<open>The target \<open>https://example.com/a?b=1\<close>\<close>

lemmas uri_eval =
  js_def uriUnescaped_def is_alnum_def is_low_surrogate_def is_high_surrogate_def utf8_def
  pct_def hexdig_def hex_octet_def hexval_def leading_ones_def

lemma example_ascii: "\<forall>c \<in> set (js ''https://example.com/a?b=1''). c < 128"
  by (simp add: js_def)

lemma example_percent_encoded:
  "encodeURIComponent (js ''https://example.com/a?b=1'') =
     Inr (js ''https%3A%2F%2Fexample.com%2Fa%3Fb%3D1'')"
  by (simp add: uri_eval)

lemma example_base64_encode:
  "base64_encode (js ''https://example.com/a?b=1'') =
     Inr (js ''aHR0cHMlM0ElMkYlMkZleGFtcGxlLmNvbSUyRmElM0ZiJTNEMQ=='')"
proof -
  have "btoa (js ''https%3A%2F%2Fexample.com%2Fa%3Fb%3D1'') =
      Inr (b64_encode (js ''https%3A%2F%2Fexample.com%2Fa%3Fb%3D1''))"
    by (rule btoa_latin1) (simp add: js_def)
  moreover have "b64_encode (js ''https%3A%2F%2Fexample.com%2Fa%3Fb%3D1'') =
      js ''aHR0cHMlM0ElMkYlMkZleGFtcGxlLmNvbSUyRmElM0ZiJTNEMQ==''"
    by (simp add: js_def b64char_def)
  moreover have "js ''https://example.com/a?b=1'' \<noteq> []"
    by (simp add: js_def)
  ultimately show ?thesis
    by (simp add: base64_encode_def example_percent_encoded)
qed

lemma example_base64_decode:
  "base64_decode (js ''aHR0cHMlM0ElMkYlMkZleGFtcGxlLmNvbSUyRmElM0ZiJTNEMQ=='') =
     Inr (js ''https://example.com/a?b=1'')"
  using base64_roundtrip [OF example_ascii] by (simp add: example_base64_encode)

lemma example_spec_token:
  "spec_base64_token (js ''https://example.com/a?b=1'') =
     Some (js ''aHR0cHMlM0ElMkYlMkZleGFtcGxlLmNvbSUyRmElM0ZiJTNEMQ'')"
proof -
  have "btoa (js ''https%3A%2F%2Fexample.com%2Fa%3Fb%3D1'') =
      Inr (b64_encode (js ''https%3A%2F%2Fexample.com%2Fa%3Fb%3D1''))"
    by (rule btoa_latin1) (simp add: js_def)
  moreover have "b64_encode (js ''https%3A%2F%2Fexample.com%2Fa%3Fb%3D1'') =
      js ''aHR0cHMlM0ElMkYlMkZleGFtcGxlLmNvbSUyRmElM0ZiJTNEMQ==''"
    by (simp add: js_def b64char_def)
  moreover have "remove_all 61 (replace_all 47 95 (replace_all 43 45
      (js ''aHR0cHMlM0ElMkYlMkZleGFtcGxlLmNvbSUyRmElM0ZiJTNEMQ==''))) =
      js ''aHR0cHMlM0ElMkYlMkZleGFtcGxlLmNvbSUyRmElM0ZiJTNEMQ''"
    by (simp add: js_def remove_all_def replace_all_def)
  ultimately show ?thesis
    by (simp add: spec_base64_token_def example_percent_encoded)
qed

lemma example_sw_encodeUrl:
  "sw_encodeUrl (js ''https://example.com/a?b=1'') =
     Some (js ''aHR0cHM6Ly9leGFtcGxlLmNvbS9hP2I9MQ'')"
proof -
  have "unescape (js ''https%3A%2F%2Fexample.com%2Fa%3Fb%3D1'') = js ''https://example.com/a?b=1''"
    by (simp add: uri_eval)
  moreover have "btoa (js ''https://example.com/a?b=1'') =
      Inr (b64_encode (js ''https://example.com/a?b=1''))"
    by (rule btoa_latin1) (simp add: js_def)
  moreover have "b64_encode (js ''https://example.com/a?b=1'') =
      js ''aHR0cHM6Ly9leGFtcGxlLmNvbS9hP2I9MQ==''"
    by (simp add: js_def b64char_def)
  moreover have "remove_all 61 (replace_all 47 95 (replace_all 43 45
      (js ''aHR0cHM6Ly9leGFtcGxlLmNvbS9hP2I9MQ==''))) = js ''aHR0cHM6Ly9leGFtcGxlLmNvbS9hP2I9MQ''"
    by (simp add: js_def remove_all_def replace_all_def)
  ultimately show ?thesis
    by (simp add: sw_encodeUrl_def example_percent_encoded)
qed

lemma example_sw_decodeUrl:
  "sw_decodeUrl (js ''aHR0cHM6Ly9leGFtcGxlLmNvbS9hP2I9MQ'') = Some (js ''https://example.com/a?b=1'')"
  using sw_roundtrip [OF example_ascii] by (simp add: example_sw_encodeUrl)

lemma example_createProxyUrl:
  "createProxyUrl H (js ''https://example.com/a?b=1'') base =
     js ''/service/aHR0cHM6Ly9leGFtcGxlLmNvbS9hP2I9MQ''"
proof -
  have "shouldProxy (js ''https://example.com/a?b=1'')"
    "js ''https://example.com/a?b=1'' \<noteq> []"
    "\<not> startsWith (js ''https://example.com/a?b=1'') (js ''//'')"
    "\<not> startsWith (js ''https://example.com/a?b=1'') (js ''/'')"
    "startsWith (js ''https://example.com/a?b=1'') (js ''https://'')"
    by (simp_all add: shouldProxy_def js_def)
  then show ?thesis
    by (simp add: createProxyUrl_def example_sw_encodeUrl PROXY_PREFIX_def) (simp add: js_def)
qed

text \<open>
  C3, as the code has it. The token of the service worker (\<open>encodeUrl\<close> of sw.js)
  contains no \<open>+\<close>, \<open>/\<close> or \<open>=\<close>, and \<open>decodeUrl\<close> pads it to a multiple of four
  before \<open>atob\<close>. For the target \<open>https://example.com/a?b=1\<close> the proxied path
  is \<open>/service/\<close> followed by the URL-safe base64 text of the URL itself, which is not
  percent-encoded first, with no padding, and decoding the path gives the target back.
  The \<open>base64\<close> codec of the bundle is \<open>btoa(encodeURIComponent(url))\<close>: it
  percent-encodes first, keeps the padding (\<open>==\<close> for this target), and its
  \<open>decode\<close> gives the target back.
\<close>

theorem sw_base64_token:
  assumes "sw_encodeUrl url = Some t"
  shows "43 \<notin> set t \<and> 47 \<notin> set t \<and> 61 \<notin> set t \<and>
         length (add_padding (replace_all 95 47 (replace_all 45 43 t))) mod 4 = 0 \<and>
         sw_decodeUrl t =
           (case andThen (atob (add_padding (replace_all 95 47 (replace_all 45 43 t))))
                   (\<lambda>b. decodeURIComponent (escape b)) of
              Inl e \<Rightarrow> None | Inr s \<Rightarrow> Some s) \<and>
         createProxyUrl H (js ''https://example.com/a?b=1'') base =
           js ''/service/aHR0cHM6Ly9leGFtcGxlLmNvbS9hP2I9MQ'' \<and>
         sw_decodeUrl (drop (length PROXY_PREFIX) (js ''/service/aHR0cHM6Ly9leGFtcGxlLmNvbS9hP2I9MQ''))
           = Some (js ''https://example.com/a?b=1'') \<and>
         base64_encode (js ''https://example.com/a?b=1'') =
           Inr (js ''aHR0cHMlM0ElMkYlMkZleGFtcGxlLmNvbSUyRmElM0ZiJTNEMQ=='') \<and>
         base64_decode (js ''aHR0cHMlM0ElMkYlMkZleGFtcGxlLmNvbSUyRmElM0ZiJTNEMQ=='') =
           Inr (js ''https://example.com/a?b=1'')"
proof -
  have "drop (length PROXY_PREFIX) (js ''/service/aHR0cHM6Ly9leGFtcGxlLmNvbS9hP2I9MQ'') =
      js ''aHR0cHM6Ly9leGFtcGxlLmNvbS9hP2I9MQ''"
    by (simp add: PROXY_PREFIX_def js_def)
  then show ?thesis
    using sw_encodeUrl_urlsafe [OF assms]
    by (simp add: add_padding_length sw_decodeUrl_def example_createProxyUrl
        example_sw_decodeUrl [unfolded sw_decodeUrl_def] example_base64_encode example_base64_decode)
qed

theorem sw_base64_token_witness:
  "sw_encodeUrl (js ''https://example.com/a?b=1'') = Some (js ''aHR0cHM6Ly9leGFtcGxlLmNvbS9hP2I9MQ'') \<and>
   43 \<notin> set (js ''aHR0cHM6Ly9leGFtcGxlLmNvbS9hP2I9MQ'') \<and>
   47 \<notin> set (js ''aHR0cHM6Ly9leGFtcGxlLmNvbS9hP2I9MQ'') \<and>
   61 \<notin> set (js ''aHR0cHM6Ly9leGFtcGxlLmNvbS9hP2I9MQ'') \<and>
   createProxyUrl example_host (js ''https://example.com/a?b=1'') (js ''https://example.com/'') =
     js ''/service/aHR0cHM6Ly9leGFtcGxlLmNvbS9hP2I9MQ'' \<and>
   sw_decodeUrl (drop (length PROXY_PREFIX) (js ''/service/aHR0cHM6Ly9leGFtcGxlLmNvbS9hP2I9MQ''))
     = Some (js ''https://example.com/a?b=1'')"
  using sw_base64_token [OF example_sw_encodeUrl, of example_host "js ''https://example.com/''"]
    example_sw_encodeUrl
  by simp

text \<open>
  C3 as stated fails at the target \<open>https://example.com/a?b=1\<close>: the token the
  specification describes is the first one below; the codec of the bundle yields it
  with \<open>==\<close> attached, and the service worker yields another token.
\<close>

theorem base64_token_counterexample:
  "spec_base64_token (js ''https://example.com/a?b=1'') =
     Some (js ''aHR0cHMlM0ElMkYlMkZleGFtcGxlLmNvbSUyRmElM0ZiJTNEMQ'') \<and>
   codec_encode CodecBase64 (js ''https://example.com/a?b=1'') =
     Inr (js ''aHR0cHMlM0ElMkYlMkZleGFtcGxlLmNvbSUyRmElM0ZiJTNEMQ=='') \<and>
   codec_encode CodecBase64 (js ''https://example.com/a?b=1'') \<noteq>
     Inr (js ''aHR0cHMlM0ElMkYlMkZleGFtcGxlLmNvbSUyRmElM0ZiJTNEMQ'') \<and>
   createProxyUrl example_host (js ''https://example.com/a?b=1'') (js ''https://example.com/'') =
     js ''/service/aHR0cHM6Ly9leGFtcGxlLmNvbS9hP2I9MQ'' \<and>
   createProxyUrl example_host (js ''https://example.com/a?b=1'') (js ''https://example.com/'') \<noteq>
     PROXY_PREFIX @ js ''aHR0cHMlM0ElMkYlMkZleGFtcGxlLmNvbSUyRmElM0ZiJTNEMQ''"
  by (simp add: example_spec_token example_base64_encode example_createProxyUrl PROXY_PREFIX_def)
     (simp add: js_def)

subsection \<open>Failing decodes\<close>









subsection \<open>The handler's test for an already rewritten URL\<close>

text \<open>
  C10. \<open>rewriteUrl\<close> of the handler decides "already rewritten" by containment: for
  every non-empty input whose trimmed form contains the configured prefix \<open>/service/\<close>
  anywhere, the result is the trimmed input, whatever the host, the source and the base
  are. The example is an absolute URL that was never proxied and has the prefix in its
  path.
\<close>

theorem handler_rewriteUrl_contains_prefix:
  assumes "url \<noteq> []" and "js_includes (trim url) (js ''/service/'')"
  shows "handler_rewriteUrl H uv_config source url base = trim url"
  using assms by (simp add: handler_rewriteUrl_def uv_config_def Let_def)

theorem handler_rewriteUrl_contains_prefix_witness:
  "js ''https://example.com/service/x'' \<noteq> [] \<and>
   js_includes (trim (js ''https://example.com/service/x'')) (js ''/service/'') \<and>
   handler_rewriteUrl example_host uv_config (js ''https://example.com/'')
     (js ''https://example.com/service/x'') [] = js ''https://example.com/service/x''"
proof -
  have t: "trim (js ''https://example.com/service/x'') = js ''https://example.com/service/x''"
    by (simp add: trim_def js_def is_js_space_def)
  have n: "js ''https://example.com/service/x'' \<noteq> []"
    by (simp add: js_def)
  have i: "js_includes (trim (js ''https://example.com/service/x'')) (js ''/service/'')"
    unfolding t by (simp add: js_def)
  show ?thesis
    using handler_rewriteUrl_contains_prefix [OF n i, of example_host "js ''https://example.com/''" "[]"] n i t
    by simp
qed

subsection \<open>Cookie visibility\<close>

lemmas example_URL_eval =
  example_URL_def parse_absolute_def parse_http_def parse_opaque_def path_and_query_def
  is_host_char_def is_path_char_def is_query_char_def is_opaque_char_def is_alnum_def js_def
  Let_def

lemma example_parse_sub:
  "example_URL (js ''https://sub.example.com/x'') None =
     Inr \<lparr>href = js ''https://sub.example.com/x'', protocol = js ''https:'',
          host = js ''sub.example.com'', hostname = js ''sub.example.com'',
          pathname = js ''/x'', search = [], origin = js ''https://sub.example.com''\<rparr>"
  by (simp add: example_URL_eval)

lemma example_parse_apex:
  "example_URL (js ''http://example.com/x'') None =
     Inr \<lparr>href = js ''http://example.com/x'', protocol = js ''http:'',
          host = js ''example.com'', hostname = js ''example.com'',
          pathname = js ''/x'', search = [], origin = js ''http://example.com''\<rparr>"
  by (simp add: example_URL_eval)

lemma example_parse_other:
  "example_URL (js ''https://other.com/x'') None =
     Inr \<lparr>href = js ''https://other.com/x'', protocol = js ''https:'',
          host = js ''other.com'', hostname = js ''other.com'',
          pathname = js ''/x'', search = [], origin = js ''https://other.com''\<rparr>"
  by (simp add: example_URL_eval)

lemma endsWith_refl: "endsWith s s"
  by (simp add: endsWith_iff)

lemma endsWith_tl: "endsWith s (c # d) \<Longrightarrow> endsWith s d"
proof -
  assume "endsWith s (c # d)"
  then obtain r where "s = r @ c # d" by (auto simp: endsWith_iff)
  then have "s = (r @ [c]) @ d" by simp
  then show ?thesis unfolding endsWith_iff by blast
qed

lemma validateCookie_domain:
  assumes "new_URL H (or_else (meta_url meta) (meta_url (uv_meta this))) None = Inr parsed"
    and "\<not> (cookie_httpOnly cookie \<and> js_ctx)"
    and "\<not> (cookie_secure cookie \<and> protocol parsed = js ''http:'')"
    and "cookie_path cookie = [] \<or> startsWith (pathname parsed) (cookie_path cookie)"
  shows "validateCookie H this cookie meta js_ctx \<longleftrightarrow>
           cookie_domain cookie = [] \<or>
           (if startsWith (cookie_domain cookie) (js ''.'')
            then endsWith (hostname parsed) (drop 1 (cookie_domain cookie)) \<or>
                 hostname parsed = drop 1 (cookie_domain cookie)
            else hostname parsed = cookie_domain cookie \<or>
                 endsWith (hostname parsed) (js ''.'' @ cookie_domain cookie))"
  using assms by (auto simp: validateCookie_def Let_def)

lemma example_visible_sub:
  "validateCookie example_host this (example_cookie (js ''.example.com''))
     (context_at (js ''https://sub.example.com/x'')) js_ctx"
proof -
  have "or_else (js ''https://sub.example.com/x'') x = js ''https://sub.example.com/x''" for x
    by (simp add: or_else_def js_def)
  then show ?thesis
    by (simp add: validateCookie_def example_cookie_def context_at_def example_host_def
        example_parse_sub Let_def)
      (simp add: js_def endsWith_def)
qed

lemma example_visible_apex:
  "validateCookie example_host this (example_cookie (js ''.example.com''))
     (context_at (js ''http://example.com/x'')) js_ctx"
proof -
  have "or_else (js ''http://example.com/x'') x = js ''http://example.com/x''" for x
    by (simp add: or_else_def js_def)
  then show ?thesis
    by (simp add: validateCookie_def example_cookie_def context_at_def example_host_def
        example_parse_apex Let_def)
      (simp add: js_def endsWith_def)
qed

lemma example_hidden_other:
  "\<not> validateCookie example_host this (example_cookie (js ''.example.com''))
     (context_at (js ''https://other.com/x'')) js_ctx"
proof -
  have "or_else (js ''https://other.com/x'') x = js ''https://other.com/x''" for x
    by (simp add: or_else_def js_def)
  then show ?thesis
    by (simp add: validateCookie_def example_cookie_def context_at_def example_host_def
        example_parse_other Let_def)
      (simp add: js_def endsWith_def)
qed

lemma example_visible_subdomain:
  "validateCookie example_host this (example_cookie (js ''example.com''))
     (context_at (js ''https://sub.example.com/x'')) js_ctx"
proof -
  have "or_else (js ''https://sub.example.com/x'') x = js ''https://sub.example.com/x''" for x
    by (simp add: or_else_def js_def)
  then show ?thesis
    by (simp add: validateCookie_def example_cookie_def context_at_def example_host_def
        example_parse_sub Let_def)
      (simp add: js_def endsWith_def)
qed

text \<open>
  C5, as the code has it. Let the context URL parse, and let the \<open>httpOnly\<close>, \<open>secure\<close> and
  \<open>path\<close> checks pass. For a cookie domain \<open>.d\<close>: a hostname equal to \<open>d\<close>, or ending
  in \<open>.d\<close>, sees the cookie, and a hostname that does not end in \<open>d\<close> does not. For a
  cookie domain \<open>d\<close> without the leading dot: the cookie is visible exactly when the
  hostname is \<open>d\<close> or ends in \<open>.d\<close>, so a subdomain sees it too. The cookie of domain
  \<open>.example.com\<close>, path \<open>/\<close>, not secure, is visible at \<open>https://sub.example.com/x\<close>
  and at \<open>http://example.com/x\<close> and not at \<open>https://other.com/x\<close>.
\<close>

theorem cookie_domain_match:
  assumes "new_URL H (or_else (meta_url meta) (meta_url (uv_meta this))) None = Inr parsed"
    and "\<not> (cookie_httpOnly cookie \<and> js_ctx)"
    and "\<not> (cookie_secure cookie \<and> protocol parsed = js ''http:'')"
    and "cookie_path cookie = [] \<or> startsWith (pathname parsed) (cookie_path cookie)"
  shows
    "(cookie_domain cookie = js ''.'' @ d \<and>
        (hostname parsed = d \<or> endsWith (hostname parsed) (js ''.'' @ d)) \<longrightarrow>
        validateCookie H this cookie meta js_ctx) \<and>
     (cookie_domain cookie = js ''.'' @ d \<and> \<not> endsWith (hostname parsed) d \<longrightarrow>
        \<not> validateCookie H this cookie meta js_ctx) \<and>
     (cookie_domain cookie \<noteq> [] \<and> \<not> startsWith (cookie_domain cookie) (js ''.'') \<longrightarrow>
        (validateCookie H this cookie meta js_ctx \<longleftrightarrow>
           hostname parsed = cookie_domain cookie \<or>
           endsWith (hostname parsed) (js ''.'' @ cookie_domain cookie))) \<and>
     validateCookie example_host this0 (example_cookie (js ''.example.com''))
       (context_at (js ''https://sub.example.com/x'')) js0 \<and>
     validateCookie example_host this0 (example_cookie (js ''.example.com''))
       (context_at (js ''http://example.com/x'')) js0 \<and>
     \<not> validateCookie example_host this0 (example_cookie (js ''.example.com''))
       (context_at (js ''https://other.com/x'')) js0"
proof -
  note v = validateCookie_domain [OF assms]
  have dot: "startsWith (js ''.'' @ d) (js ''.'')" "drop 1 (js ''.'' @ d) = d" "js ''.'' @ d \<noteq> []"
    by (simp_all add: js_def)
  have a: "validateCookie H this cookie meta js_ctx"
    if "cookie_domain cookie = js ''.'' @ d"
      and "hostname parsed = d \<or> endsWith (hostname parsed) (js ''.'' @ d)"
  proof -
    have "endsWith (hostname parsed) d"
      using that(2) endsWith_refl [of d] endsWith_tl [of "hostname parsed" 46 d]
      by (auto simp: js_def)
    then show ?thesis
      using that(1) dot by (simp add: v)
  qed
  have b: "\<not> validateCookie H this cookie meta js_ctx"
    if "cookie_domain cookie = js ''.'' @ d" and "\<not> endsWith (hostname parsed) d"
  proof -
    have "hostname parsed \<noteq> d"
      using that(2) endsWith_refl [of d] by auto
    then show ?thesis
      using that dot by (simp add: v)
  qed
  have c: "validateCookie H this cookie meta js_ctx \<longleftrightarrow>
       hostname parsed = cookie_domain cookie \<or>
       endsWith (hostname parsed) (js ''.'' @ cookie_domain cookie)"
    if "cookie_domain cookie \<noteq> []" and "\<not> startsWith (cookie_domain cookie) (js ''.'')"
    using that by (simp add: v)
  show ?thesis
    using a b c example_visible_sub example_visible_apex example_hidden_other by blast
qed

theorem cookie_domain_match_witness:
  "validateCookie example_host (Ultraviolet example_host uv_config)
     (example_cookie (js ''.example.com'')) (context_at (js ''https://sub.example.com/x'')) False \<and>
   \<not> endsWith (js ''other.com'') (js ''example.com'') \<and>
   \<not> validateCookie example_host (Ultraviolet example_host uv_config)
     (example_cookie (js ''.example.com'')) (context_at (js ''https://other.com/x'')) False \<and>
   endsWith (js ''sub.example.com'') (js ''.'' @ js ''example.com'') \<and>
   validateCookie example_host (Ultraviolet example_host uv_config)
     (example_cookie (js ''example.com'')) (context_at (js ''https://sub.example.com/x'')) False"
proof -
  let ?U = "Ultraviolet example_host uv_config"
  let ?sub = "\<lparr>href = js ''https://sub.example.com/x'', protocol = js ''https:'',
          host = js ''sub.example.com'', hostname = js ''sub.example.com'',
          pathname = js ''/x'', search = [], origin = js ''https://sub.example.com''\<rparr>"
  let ?other = "\<lparr>href = js ''https://other.com/x'', protocol = js ''https:'',
          host = js ''other.com'', hostname = js ''other.com'',
          pathname = js ''/x'', search = [], origin = js ''https://other.com''\<rparr>"
  have p_sub: "new_URL example_host
      (or_else (meta_url (context_at (js ''https://sub.example.com/x''))) (meta_url (uv_meta ?U))) None
      = Inr ?sub"
    using example_parse_sub by (simp add: example_host_def context_at_def or_else_def) (simp add: js_def)
  have p_other: "new_URL example_host
      (or_else (meta_url (context_at (js ''https://other.com/x''))) (meta_url (uv_meta ?U))) None
      = Inr ?other"
    using example_parse_other by (simp add: example_host_def context_at_def or_else_def) (simp add: js_def)
  have flags: "\<not> (cookie_httpOnly (example_cookie dom) \<and> False)"
    "\<not> (cookie_secure (example_cookie dom) \<and> protocol u = js ''http:'')" for dom u
    by (simp_all add: example_cookie_def)
  have path: "cookie_path (example_cookie dom) = [] \<or>
      startsWith (pathname ?sub) (cookie_path (example_cookie dom))"
    "cookie_path (example_cookie dom) = [] \<or>
      startsWith (pathname ?other) (cookie_path (example_cookie dom))" for dom
    by (simp_all add: example_cookie_def js_def)
  have e1: "endsWith (js ''sub.example.com'') (js ''.'' @ js ''example.com'')"
    and e2: "\<not> endsWith (js ''other.com'') (js ''example.com'')"
    and e3: "\<not> startsWith (js ''example.com'') (js ''.'')"
    by (simp_all add: endsWith_def js_def)
  note t1 = cookie_domain_match [OF p_sub flags(1) flags(2) path(1), of "js ''.example.com''" "js ''example.com''"]
  note t2 = cookie_domain_match [OF p_other flags(1) flags(2) path(2), of "js ''.example.com''" "js ''example.com''"]
  note t3 = cookie_domain_match [OF p_sub flags(1) flags(2) path(1), of "js ''example.com''" "js ''example.com''"]
  have d1: "cookie_domain (example_cookie (js ''.example.com'')) = js ''.'' @ js ''example.com''"
    by (simp add: example_cookie_def js_def)
  have d3: "cookie_domain (example_cookie (js ''example.com'')) = js ''example.com''"
    "js ''example.com'' \<noteq> []"
    by (simp_all add: example_cookie_def js_def)
  have "validateCookie example_host ?U (example_cookie (js ''.example.com''))
      (context_at (js ''https://sub.example.com/x'')) False"
    using t1 d1 e1 by simp
  moreover have "\<not> validateCookie example_host ?U (example_cookie (js ''.example.com''))
      (context_at (js ''https://other.com/x'')) False"
    using t2 d1 e2 by simp
  moreover have "validateCookie example_host ?U (example_cookie (js ''example.com''))
      (context_at (js ''https://sub.example.com/x'')) False"
    using t3 d3 e1 e3 by simp
  ultimately show ?thesis
    using e1 e2 by simp
qed

text \<open>
  C5 as stated fails for a cookie domain without the leading dot: the cookie of domain
  \<open>example.com\<close> is visible at the hostname \<open>sub.example.com\<close>, which is not equal to
  the domain.
\<close>

theorem cookie_subdomain_counterexample:
  "cookie_domain (example_cookie (js ''example.com'')) = js ''example.com'' \<and>
   \<not> startsWith (js ''example.com'') (js ''.'') \<and>
   new_URL example_host (js ''https://sub.example.com/x'') None =
     Inr \<lparr>href = js ''https://sub.example.com/x'', protocol = js ''https:'',
          host = js ''sub.example.com'', hostname = js ''sub.example.com'',
          pathname = js ''/x'', search = [], origin = js ''https://sub.example.com''\<rparr> \<and>
   js ''sub.example.com'' \<noteq> js ''example.com'' \<and>
   validateCookie example_host (Ultraviolet example_host uv_config)
     (example_cookie (js ''example.com'')) (context_at (js ''https://sub.example.com/x'')) False"
  using example_visible_subdomain [of "Ultraviolet example_host uv_config" False] example_parse_sub
  by (simp add: example_cookie_def example_host_def) (simp add: js_def)

subsection \<open>Redirects at the service worker\<close>

lemma sw_encodeUrl_ascii:
  assumes "\<forall>c \<in> set s. c < 128"
  shows "sw_encodeUrl s = Some (replace_all 47 95 (replace_all 43 45 (b64_unpadded s)))"
proof -
  have l: "\<forall>c \<in> set s. c < 256" using assms by auto
  have "unescape (concat (map (\<lambda>c. if uriUnescaped c then [c] else pct c) s)) = s"
    using assms by (intro unescape_percent_encoded) (auto dest: uriUnescaped_not_pct)
  then have "andThen (encodeURIComponent s) (\<lambda>p. btoa (unescape p)) = Inr (b64_encode s)"
    using assms l by (simp add: encodeURIComponent_ascii btoa_latin1)
  moreover have "remove_all 61 (replace_all 47 95 (replace_all 43 45 (b64_encode s))) =
      replace_all 47 95 (replace_all 43 45 (b64_unpadded s))"
    unfolding b64_encode_split
    using b64_unpadded_alphabet [of s] b64_padding_cases [of s]
    by (intro urlsafe_unpadded) auto
  ultimately show ?thesis
    by (simp add: sw_encodeUrl_def)
qed

lemma example_token_old:
  "sw_encodeUrl (js ''https://example.com/old'') = Some (js ''aHR0cHM6Ly9leGFtcGxlLmNvbS9vbGQ'')"
proof -
  have "\<forall>c \<in> set (js ''https://example.com/old''). c < 128"
    by (simp add: js_def)
  then show ?thesis
    by (simp only: sw_encodeUrl_ascii) (simp add: js_def b64char_def replace_all_def)
qed

lemma example_targetUrl: "sw_targetUrl example_request_URL = Some (js ''https://example.com/old'')"
proof -
  have a: "\<forall>c \<in> set (js ''https://example.com/old''). c < 128"
    by (simp add: js_def)
  have "sw_decodeUrl (js ''aHR0cHM6Ly9leGFtcGxlLmNvbS9vbGQ'') = Some (js ''https://example.com/old'')"
    using sw_roundtrip [OF a] by (simp add: example_token_old)
  moreover have "drop (length PROXY_PREFIX) (pathname example_request_URL) =
      js ''aHR0cHM6Ly9leGFtcGxlLmNvbS9vbGQ''"
    by (simp add: PROXY_PREFIX_def example_request_URL_def js_def)
  moreover have "js ''https://example.com/old'' \<noteq> []" "search example_request_URL = []"
    by (simp_all add: js_def example_request_URL_def)
  ultimately show ?thesis
    by (simp add: sw_targetUrl_def)
qed

lemma example_parse_old:
  "new_URL example_worker (js ''https://example.com/old'') None =
     Inr \<lparr>href = js ''https://example.com/old'', protocol = js ''https:'',
          host = js ''example.com'', hostname = js ''example.com'',
          pathname = js ''/old'', search = [], origin = js ''https://example.com''\<rparr>"
  by (simp add: example_worker_def example_URL_eval)

lemma sw_request_manual:
  "sw_request H request targetUrl = Inr proxyRequest \<Longrightarrow> preq_redirect proxyRequest = js ''manual''"
  by (cases "new_URL H targetUrl None") (auto simp: sw_request_def sw_proxyRequest_def)

lemma sw_respond_opaque_redirect: "sw_respond H targetUrl opaque_redirect = Inl RangeError"
  by (simp add: sw_respond_def opaque_redirect_def headers_get_def Response_new_def)

text \<open>
  What the worker answers when the backend answers with a redirect status, for every
  host, request and URL: 400 where the token does not decode, and 502 otherwise. No case
  is a redirect.
\<close>

lemma handleProxyRequest_manual_redirect:
  assumes "resp_status actualResponse \<in> {301, 302, 303, 307, 308}"
  shows "handleProxyRequest H (\<lambda>proxyRequest. Inr (manual_redirect actualResponse)) request url =
           (case sw_targetUrl url of
              None \<Rightarrow> InvalidEncodedUrl
            | Some targetUrl \<Rightarrow>
                (case new_URL H targetUrl None of
                   Inl e \<Rightarrow> ProxyError e
                 | Inr targetUrlObj \<Rightarrow> ProxyError RangeError))"
proof -
  have m: "manual_redirect actualResponse = opaque_redirect"
    using assms by (simp add: manual_redirect_def)
  show ?thesis
    by (simp add: handleProxyRequest_def sw_request_def m sw_respond_opaque_redirect
        split: option.splits sum.splits)
qed

text \<open>
  C6 does not hold of the code. The worker sends its request with \<open>redirect: 'manual'\<close>
  (\<open>sw_request_manual\<close>), so an answer of status 301, 302, 303, 307 or 308 reaches it as
  the opaque-redirect filtered response, which has no \<open>Location\<close> to read. The branch
  that rewrites the \<open>Location\<close> is left by \<open>if (location)\<close>, the closing
  \<open>new Response\<close> is called with status 0 and throws \<open>RangeError\<close>, and the \<open>catch\<close>
  answers 502: for every request whose token decodes to a URL the host parses, a
  redirect of the target becomes a proxy error, with no \<open>Location\<close> and not the status
  of the target. The example is the scenario of the specification: the target
  \<open>https://example.com/old\<close> answers 302 with \<open>Location: /new\<close>.
\<close>

theorem redirect_not_rewritten:
  assumes "resp_status actualResponse \<in> {301, 302, 303, 307, 308}"
    and "sw_targetUrl url = Some targetUrl"
    and "new_URL H targetUrl None = Inr targetUrlObj"
  shows "manual_redirect actualResponse = opaque_redirect \<and>
         headers_get (resp_headers opaque_redirect) (js ''Location'') = None \<and>
         handleProxyRequest H (\<lambda>proxyRequest. Inr (manual_redirect actualResponse)) request url =
           ProxyError RangeError"
proof -
  have "manual_redirect actualResponse = opaque_redirect"
    using assms(1) by (simp add: manual_redirect_def)
  moreover have "headers_get (resp_headers opaque_redirect) (js ''Location'') = None"
    by (simp add: opaque_redirect_def headers_get_def)
  moreover have "handleProxyRequest H (\<lambda>proxyRequest. Inr (manual_redirect actualResponse)) request url =
      ProxyError RangeError"
    using handleProxyRequest_manual_redirect [OF assms(1), of H request url] assms(2,3) by simp
  ultimately show ?thesis by simp
qed

theorem redirect_not_rewritten_witness:
  "resp_status (example_upstream (js ''/new'')) \<in> {301, 302, 303, 307, 308} \<and>
   sw_targetUrl example_request_URL = Some (js ''https://example.com/old'') \<and>
   manual_redirect (example_upstream (js ''/new'')) = opaque_redirect \<and>
   handleProxyRequest example_worker
     (\<lambda>proxyRequest. Inr (manual_redirect (example_upstream (js ''/new''))))
     example_request example_request_URL = ProxyError RangeError"
proof -
  have s: "resp_status (example_upstream (js ''/new'')) \<in> {301, 302, 303, 307, 308}"
    by (simp add: example_upstream_def)
  show ?thesis
    using redirect_not_rewritten [OF s example_targetUrl example_parse_old, of example_request]
      s example_targetUrl
    by blast
qed

subsection \<open>The request headers that reach the executor\<close>

lemma sw_request_headers:
  "sw_request H request targetUrl = Inr proxyRequest \<Longrightarrow>
     preq_headers proxyRequest = req_headers request"
  by (cases "new_URL H targetUrl None") (auto simp: sw_request_def sw_proxyRequest_def)

lemma example_sw_headers:
  "sw_headers example_request (js ''https://example.com/old'')
     \<lparr>href = js ''https://example.com/old'', protocol = js ''https:'',
      host = js ''example.com'', hostname = js ''example.com'',
      pathname = js ''/old'', search = [], origin = js ''https://example.com''\<rparr> =
     [(js ''accept'', js ''text/html''), (js ''host'', js ''example.com''),
      (js ''origin'', js ''https://example.com''), (js ''referer'', js ''https://example.com/old'')]"
  by (simp add: sw_headers_def forwardHeaders_def example_request_def headers_get_def
      headers_set_def toLowerCase_def js_def)

text \<open>
  C7 at the request of the examples, which carries \<open>accept\<close> and \<open>x-secret\<close>. The
  local \<open>headers\<close> holds \<open>accept\<close> and the synthesized Host, Origin and Referer, as the
  claim says; the request that \<open>fetch\<close> receives holds the headers of the client
  instead: \<open>x-secret\<close> is there, and Host, Origin and Referer are not.
\<close>

theorem forwarded_headers_unfiltered:
  "sw_headers example_request (js ''https://example.com/old'')
     \<lparr>href = js ''https://example.com/old'', protocol = js ''https:'',
      host = js ''example.com'', hostname = js ''example.com'',
      pathname = js ''/old'', search = [], origin = js ''https://example.com''\<rparr> =
     [(js ''accept'', js ''text/html''), (js ''host'', js ''example.com''),
      (js ''origin'', js ''https://example.com''), (js ''referer'', js ''https://example.com/old'')] \<and>
   sw_request example_worker example_request (js ''https://example.com/old'') =
     Inr \<lparr>preq_url = js ''https://proxy.example/service/aHR0cHM6Ly9leGFtcGxlLmNvbS9vbGQ'',
          preq_method = js ''GET'',
          preq_headers = [(js ''accept'', js ''text/html''), (js ''x-secret'', js ''1'')],
          preq_mode = js ''same-origin'', preq_credentials = js ''include'',
          preq_redirect = js ''manual''\<rparr> \<and>
   handleProxyRequest example_worker
     (\<lambda>proxyRequest.
        Inr \<lparr>resp_type = Basic, resp_status = 200, resp_statusText = js ''OK'', resp_headers = [],
             resp_body = (case headers_get (preq_headers proxyRequest) (js ''x-secret'') of
                            None \<Rightarrow> js ''no x-secret''
                          | Some v \<Rightarrow> js ''x-secret: '' @ v)\<rparr>)
     example_request example_request_URL =
     PassedThrough 200 (js ''OK'') [] (js ''x-secret: 1'')"
proof -
  have r: "sw_request example_worker example_request (js ''https://example.com/old'') =
     Inr \<lparr>preq_url = js ''https://proxy.example/service/aHR0cHM6Ly9leGFtcGxlLmNvbS9vbGQ'',
          preq_method = js ''GET'',
          preq_headers = [(js ''accept'', js ''text/html''), (js ''x-secret'', js ''1'')],
          preq_mode = js ''same-origin'', preq_credentials = js ''include'',
          preq_redirect = js ''manual''\<rparr>"
    by (simp add: sw_request_def example_parse_old sw_proxyRequest_def example_request_def)
  have g: "headers_get [(js ''accept'', js ''text/html''), (js ''x-secret'', js ''1'')] (js ''x-secret'')
      = Some (js ''1'')"
    by (simp add: headers_get_def toLowerCase_def js_def)
  have "handleProxyRequest example_worker
     (\<lambda>proxyRequest.
        Inr \<lparr>resp_type = Basic, resp_status = 200, resp_statusText = js ''OK'', resp_headers = [],
             resp_body = (case headers_get (preq_headers proxyRequest) (js ''x-secret'') of
                            None \<Rightarrow> js ''no x-secret''
                          | Some v \<Rightarrow> js ''x-secret: '' @ v)\<rparr>)
     example_request example_request_URL =
     PassedThrough 200 (js ''OK'') [] (js ''x-secret: 1'')"
    by (simp add: handleProxyRequest_def example_targetUrl r g sw_respond_def Response_new_def)
      (simp add: js_def)
  then show ?thesis
    using example_sw_headers r by simp
qed

subsection \<open>A listener that throws\<close>

lemma FetchHook_override_throws:
  assumes "args \<noteq> []"
    and "fn \<lparr>data_input = arg args 0, data_init = arg args 1,
              intercepted = False, returnValue = Undefined\<rparr> = Inl e"
  shows "FetchHook_override (fn # fns) target args = Inl e"
  using assms by (simp add: FetchHook_override_def)

text \<open>
  C9 at the call \<open>fetch("/api", null)\<close> on a page the handler has hooked. The listener of
  the handler reads \<open>init.headers\<close> of \<open>null\<close> and throws; \<open>emit\<close> has no \<open>try\<close>, so the
  wrapper throws \<open>TypeError\<close> to the page, whatever the original \<open>fetch\<close> would have
  returned: the original is not called.
\<close>

theorem fetch_listener_error_propagates:
  "\<forall>target. FetchHook_override
     [handler_fetch_listener example_host uv_config (js ''https://example.com/'')] target
     [Str (js ''/api''), Null] = Inl TypeError"
  by (simp add: FetchHook_override_def handler_fetch_listener_def Let_def)

subsection \<open>The skip list of \<open>rewriteUrl\<close>\<close>

lemma handler_rewriteUrl_special:
  "url \<noteq> [] \<Longrightarrow> is_special_url (trim url) \<Longrightarrow>
     handler_rewriteUrl H config source url base = trim url"
  by (simp add: handler_rewriteUrl_def Let_def)

lemma Ultraviolet_rewriteUrl_skipped:
  "url \<noteq> [] \<Longrightarrow> urlRegex_test (trim url) \<Longrightarrow>
     Ultraviolet_rewriteUrl H this url meta = Inr (trim url)"
  by (simp add: Ultraviolet_rewriteUrl_def Let_def)

lemma example_trim_tel: "trim (js ''tel:+15551234'') = js ''tel:+15551234''"
  by (simp add: trim_def is_js_space_def js_def)

lemma example_xor_tel: "xor_encode (js ''tel:+15551234'') = Inr (js ''tgl8%2B35753214'')"
  by (simp add: xor_encode_def uri_eval)

lemma example_parse_tel:
  "example_URL (js ''tel:+15551234'')
     (Some (js ''https://proxy.example/service/hvtrs8%2F-ezaopne%2Ccmm-'')) =
     Inr \<lparr>href = js ''tel:+15551234'', protocol = js ''tel:'', host = [], hostname = [],
          pathname = js ''+15551234'', search = [], origin = js ''null''\<rparr>"
  by (simp add: example_URL_eval)

text \<open>
  C8 at \<open>tel:+15551234\<close>. The pattern of \<open>Ultraviolet.rewriteUrl\<close> has no \<open>tel:\<close>, so
  the method resolves the input and returns a proxy URL; \<open>rewriteUrl\<close> of the handler,
  whose list has \<open>tel:\<close>, returns the input.
\<close>

theorem tel_is_rewritten:
  "Ultraviolet_rewriteUrl example_host (Ultraviolet example_host uv_config)
     (js ''tel:+15551234'') None = Inr (js ''https://proxy.example/service/tgl8%2B35753214'') \<and>
   handler_rewriteUrl example_host uv_config (js ''https://example.com/'')
     (js ''tel:+15551234'') [] = js ''tel:+15551234''"
proof -
  have n: "js ''tel:+15551234'' \<noteq> []"
    and r: "\<not> urlRegex_test (js ''tel:+15551234'')"
    and j: "\<not> startsWith (js ''tel:+15551234'') (js ''javascript:'')"
    and s: "\<not> startsWith (js ''tel:+15551234'') (js ''//'')"
    and sp: "is_special_url (js ''tel:+15551234'')"
    by (simp_all add: urlRegex_test_def is_special_url_def js_def)
  have "Ultraviolet_rewriteUrl example_host (Ultraviolet example_host uv_config)
     (js ''tel:+15551234'') None = Inr (js ''https://proxy.example/service/tgl8%2B35753214'')"
    using n r j s
    by (simp add: Ultraviolet_rewriteUrl_def Let_def example_trim_tel Ultraviolet_def uv_config_def
        or_else_def example_host_def example_parse_tel example_xor_tel)
      (simp add: js_def)
  moreover have "handler_rewriteUrl example_host uv_config (js ''https://example.com/'')
     (js ''tel:+15551234'') [] = js ''tel:+15551234''"
    using handler_rewriteUrl_special [of "js ''tel:+15551234''"] n sp
    by (simp add: example_trim_tel)
  ultimately show ?thesis by simp
qed

subsection \<open>Rewriting twice\<close>

lemma example_trim_page: "trim (js ''https://example.com/'') = js ''https://example.com/''"
  by (simp add: trim_def is_js_space_def js_def)

lemma example_trim_proxied:
  "trim (js ''https://proxy.example/service/hvtrs8%2F-ezaopne%2Ccmm-'') =
     js ''https://proxy.example/service/hvtrs8%2F-ezaopne%2Ccmm-''"
  by (simp add: trim_def is_js_space_def js_def)

lemma example_xor_page: "xor_encode (js ''https://example.com/'') = Inr (js ''hvtrs8%2F-ezaopne%2Ccmm-'')"
  by (simp add: xor_encode_def uri_eval)

lemma example_xor_proxied:
  "xor_encode (js ''https://proxy.example/service/hvtrs8%2F-ezaopne%2Ccmm-'') =
     Inr (js ''hvtrs8%2F-ppozy%2Cezaopne-sgrtiae-https%3A%250F%2Fexample'' @ [39] @ js ''2Acom%2F'')"
  by (simp add: xor_encode_def uri_eval)

lemma example_parse_page:
  "example_URL (js ''https://example.com/'')
     (Some (js ''https://proxy.example/service/hvtrs8%2F-ezaopne%2Ccmm-'')) =
     Inr \<lparr>href = js ''https://example.com/'', protocol = js ''https:'', host = js ''example.com'',
          hostname = js ''example.com'', pathname = js ''/'', search = [],
          origin = js ''https://example.com''\<rparr>"
  by (simp add: example_URL_eval)

lemma example_parse_proxied:
  "example_URL (js ''https://proxy.example/service/hvtrs8%2F-ezaopne%2Ccmm-'')
     (Some (js ''https://proxy.example/service/hvtrs8%2F-ezaopne%2Ccmm-'')) =
     Inr \<lparr>href = js ''https://proxy.example/service/hvtrs8%2F-ezaopne%2Ccmm-'',
          protocol = js ''https:'', host = js ''proxy.example'', hostname = js ''proxy.example'',
          pathname = js ''/service/hvtrs8%2F-ezaopne%2Ccmm-'', search = [],
          origin = js ''https://proxy.example''\<rparr>"
  by (simp add: example_URL_eval)

text \<open>
  C2 at \<open>https://example.com/\<close>, on a page of the proxy \<open>https://proxy.example\<close> with the
  shipped configuration. \<open>Ultraviolet.rewriteUrl\<close> has no test for a URL that is
  already rewritten: applied to its own result it resolves it, encodes it again and
  returns a longer URL.
\<close>

theorem rewriteUrl_twice:
  "Ultraviolet_rewriteUrl example_host (Ultraviolet example_host uv_config)
     (js ''https://example.com/'') None =
     Inr (js ''https://proxy.example/service/hvtrs8%2F-ezaopne%2Ccmm-'') \<and>
   Ultraviolet_rewriteUrl example_host (Ultraviolet example_host uv_config)
     (js ''https://proxy.example/service/hvtrs8%2F-ezaopne%2Ccmm-'') None =
     Inr (js ''https://proxy.example/service/hvtrs8%2F-ppozy%2Cezaopne-sgrtiae-https%3A%250F%2Fexample''
          @ [39] @ js ''2Acom%2F'') \<and>
   js ''https://proxy.example/service/hvtrs8%2F-ezaopne%2Ccmm-'' \<noteq>
     js ''https://proxy.example/service/hvtrs8%2F-ppozy%2Cezaopne-sgrtiae-https%3A%250F%2Fexample''
       @ [39] @ js ''2Acom%2F''"
proof -
  have a: "js ''https://example.com/'' \<noteq> []"
    "\<not> urlRegex_test (js ''https://example.com/'')"
    "\<not> startsWith (js ''https://example.com/'') (js ''javascript:'')"
    "\<not> startsWith (js ''https://example.com/'') (js ''//'')"
    by (simp_all add: urlRegex_test_def js_def)
  have b: "js ''https://proxy.example/service/hvtrs8%2F-ezaopne%2Ccmm-'' \<noteq> []"
    "\<not> urlRegex_test (js ''https://proxy.example/service/hvtrs8%2F-ezaopne%2Ccmm-'')"
    "\<not> startsWith (js ''https://proxy.example/service/hvtrs8%2F-ezaopne%2Ccmm-'') (js ''javascript:'')"
    "\<not> startsWith (js ''https://proxy.example/service/hvtrs8%2F-ezaopne%2Ccmm-'') (js ''//'')"
    by (simp_all add: urlRegex_test_def js_def)
  have "Ultraviolet_rewriteUrl example_host (Ultraviolet example_host uv_config)
     (js ''https://example.com/'') None =
     Inr (js ''https://proxy.example/service/hvtrs8%2F-ezaopne%2Ccmm-'')"
    using a
    by (simp add: Ultraviolet_rewriteUrl_def Let_def example_trim_page Ultraviolet_def uv_config_def
        or_else_def example_host_def example_parse_page example_xor_page)
      (simp add: js_def)
  moreover have "Ultraviolet_rewriteUrl example_host (Ultraviolet example_host uv_config)
     (js ''https://proxy.example/service/hvtrs8%2F-ezaopne%2Ccmm-'') None =
     Inr (js ''https://proxy.example/service/hvtrs8%2F-ppozy%2Cezaopne-sgrtiae-https%3A%250F%2Fexample''
          @ [39] @ js ''2Acom%2F'')"
    using b
    by (simp add: Ultraviolet_rewriteUrl_def Let_def example_trim_proxied Ultraviolet_def uv_config_def
        or_else_def example_host_def example_parse_proxied example_xor_proxied)
      (simp add: js_def)
  moreover have "js ''https://proxy.example/service/hvtrs8%2F-ezaopne%2Ccmm-'' \<noteq>
     js ''https://proxy.example/service/hvtrs8%2F-ppozy%2Cezaopne-sgrtiae-https%3A%250F%2Fexample''
       @ [39] @ js ''2Acom%2F''"
    by (simp add: js_def)
  ultimately show ?thesis by simp
qed

subsection \<open>\<open>rewriteUrl\<close> of the handler is idempotent\<close>

lemma last_dropWhile: "dropWhile P xs \<noteq> [] \<Longrightarrow> last (dropWhile P xs) = last xs"
  by (induction xs) (auto split: if_splits)

lemma trim_ends:
  assumes "trim s \<noteq> []"
  shows "\<not> is_js_space (hd (trim s))" and "\<not> is_js_space (last (trim s))"
proof -
  define d where "d = dropWhile is_js_space s"
  define e where "e = dropWhile is_js_space (rev d)"
  have t: "trim s = rev e" by (simp add: trim_def d_def e_def)
  then have e: "e \<noteq> []" using assms by simp
  then have "rev d \<noteq> []" by (auto simp: e_def)
  then have d: "d \<noteq> []" by simp
  have "\<not> is_js_space (hd e)"
    using e unfolding e_def by (rule hd_dropWhile)
  then show "\<not> is_js_space (last (trim s))"
    using e by (simp add: t last_rev)
  have "last e = last (rev d)"
    using e unfolding e_def by (rule last_dropWhile)
  then have "last e = hd d" using d by (simp add: last_rev)
  moreover have "\<not> is_js_space (hd d)"
    using d unfolding d_def by (rule hd_dropWhile)
  ultimately show "\<not> is_js_space (hd (trim s))"
    using e by (simp add: t hd_rev)
qed

lemma trim_fixed:
  assumes "s \<noteq> [] \<Longrightarrow> \<not> is_js_space (hd s) \<and> \<not> is_js_space (last s)"
  shows "trim s = s"
proof (cases "s = []")
  case True
  then show ?thesis by (simp add: trim_def)
next
  case False
  then have h: "\<not> is_js_space (hd s)" and l: "\<not> is_js_space (last s)"
    using assms by simp_all
  have "dropWhile is_js_space s = s"
    using False h by (cases s) simp_all
  moreover have "dropWhile is_js_space (rev s) = rev s"
    using False l by (cases "rev s") (simp_all add: last_rev [symmetric] hd_rev)
  ultimately show ?thesis by (simp add: trim_def)
qed

lemma trim_trim: "trim (trim s) = trim s"
  using trim_ends [of s] by (intro trim_fixed) simp

lemma hexdig_no_space: "n < 16 \<Longrightarrow> \<not> is_js_space (hexdig n)"
  by (auto simp: hexdig_def is_js_space_def)

lemma pct_no_space:
  assumes "b < 256"
  shows "\<forall>c \<in> set (pct b). \<not> is_js_space c"
proof -
  have "b div 16 < 16" using assms by simp
  then show ?thesis
    by (simp add: pct_def hexdig_no_space) (simp add: is_js_space_def)
qed

lemma utf8_octets:
  assumes "cp < 1114112"
  shows "\<forall>b \<in> set (utf8 cp). b < 256"
proof -
  have "cp div 64 < 32" if "cp < 2048" using that by simp
  moreover have "cp div 4096 < 16" if "cp < 65536" using that by simp
  moreover have "cp div 262144 < 16" using assms by simp
  ultimately show ?thesis
    by (auto simp: utf8_def)
qed

lemma pct_utf8_no_space:
  "cp < 1114112 \<Longrightarrow> \<forall>c \<in> set (concat (map pct (utf8 cp))). \<not> is_js_space c"
  using utf8_octets [of cp] pct_no_space by auto

lemma uriUnescaped_no_space: "uriUnescaped c \<Longrightarrow> \<not> is_js_space c"
  by (auto simp: uriUnescaped_def is_alnum_def is_js_space_def)

lemma emit_Inr: "emit xs r = Inr t \<Longrightarrow> \<exists>ys. r = Inr ys \<and> t = xs @ ys"
  by (cases r) auto

lemma encodeURIComponent_no_space:
  "\<forall>c \<in> set s. c < 65536 \<Longrightarrow> encodeURIComponent s = Inr t \<Longrightarrow>
     \<forall>c \<in> set t. \<not> is_js_space c"
proof (induction s arbitrary: t rule: encodeURIComponent.induct)
  case 1
  then show ?case by simp
next
  case (2 c cs)
  show ?case
  proof (cases "uriUnescaped c")
    case True
    then obtain ys where "encodeURIComponent cs = Inr ys" "t = [c] @ ys"
      using "2.prems"(2) by (auto dest: emit_Inr)
    then show ?thesis
      using "2.IH"(1) [OF True] "2.prems"(1) True uriUnescaped_no_space by auto
  next
    case False
    note u = this
    then have nl: "\<not> is_low_surrogate c"
      using "2.prems"(2) by (auto split: if_splits)
    show ?thesis
    proof (cases "is_high_surrogate c")
      case True
      then obtain d ds where cs: "cs = d # ds" and d: "is_low_surrogate d"
        using "2.prems"(2) u nl by (auto split: list.splits if_splits)
      define cp where "cp = 65536 + (c - 55296) * 1024 + (d - 56320)"
      have c: "c - 55296 \<le> 1023" and d': "d - 56320 \<le> 1023"
        using True d unfolding is_high_surrogate_def is_low_surrogate_def by linarith+
      from c have "(c - 55296) * 1024 \<le> 1023 * 1024"
        by (rule mult_le_mono1)
      then have "cp < 1114112"
        unfolding cp_def using d' by linarith
      then have p: "\<forall>x \<in> set (concat (map pct (utf8 cp))). \<not> is_js_space x"
        by (rule pct_utf8_no_space)
      obtain ys where ys: "encodeURIComponent ds = Inr ys" "t = concat (map pct (utf8 cp)) @ ys"
        using "2.prems"(2) u nl True cs d by (auto simp: cp_def dest: emit_Inr)
      have "\<forall>x \<in> set ys. \<not> is_js_space x"
        using "2.IH"(2) [OF u nl True cs d _ ys(1)] "2.prems"(1) cs by simp
      then show ?thesis
        using p ys(2) by auto
    next
      case False
      have "c < 1114112" using "2.prems"(1) by simp
      then have p: "\<forall>x \<in> set (concat (map pct (utf8 c))). \<not> is_js_space x"
        by (rule pct_utf8_no_space)
      obtain ys where ys: "encodeURIComponent cs = Inr ys" "t = concat (map pct (utf8 c)) @ ys"
        using "2.prems"(2) u nl False by (auto dest: emit_Inr)
      have "\<forall>x \<in> set ys. \<not> is_js_space x"
        using "2.IH"(3) [OF u nl False _ ys(1)] "2.prems"(1) by simp
      then show ?thesis
        using p ys(2) by auto
    qed
  qed
qed

lemma xor_loop_units: "\<forall>c \<in> set s. c < 65536 \<Longrightarrow> \<forall>c \<in> set (xor_loop i s). c < 65536"
  by (induction s arbitrary: i) simp_all

lemma xor_encode_no_space:
  assumes "\<forall>c \<in> set s. c < 65536" and "xor_encode s = Inr t"
  shows "\<forall>c \<in> set t. \<not> is_js_space c"
proof (cases "s = []")
  case True
  then show ?thesis using assms(2) by (simp add: xor_encode_def)
next
  case False
  then have "encodeURIComponent (xor_loop 0 s) = Inr t"
    using assms(2) by (simp add: xor_encode_def)
  then show ?thesis
    using xor_loop_units [OF assms(1)] encodeURIComponent_no_space by blast
qed

lemma handler_rewriteUrl_unfold:
  "handler_rewriteUrl H uv_config source url base =
     (if url = [] then url
      else if is_special_url (trim url) \<or> js_includes (trim url) (js ''/service/'') then trim url
      else
        (case andThen (new_URL H (trim url) (Some (or_else base source)))
                (\<lambda>u. xor_encode (href u)) of
           Inl e \<Rightarrow> trim url
         | Inr t \<Rightarrow> js ''/service/'' @ t))"
  by (simp add: handler_rewriteUrl_def uv_config_def Ultraviolet_def Let_def split: sum.splits)

text \<open>
  For every host whose URLs are strings of UTF-16 code units, with the shipped
  configuration: rewriting the result of \<open>rewriteUrl\<close> again changes nothing.
\<close>

lemma handler_rewriteUrl_idempotent:
  assumes wf: "\<And>x b u. new_URL H x b = Inr u \<Longrightarrow> \<forall>c \<in> set (href u). c < 65536"
  shows "handler_rewriteUrl H uv_config source
           (handler_rewriteUrl H uv_config source url base) base =
         handler_rewriteUrl H uv_config source url base"
proof (cases "url = []")
  case True
  then show ?thesis by (simp add: handler_rewriteUrl_unfold)
next
  case False
  define t where "t = trim url"
  have tt: "trim t = t" by (simp add: t_def trim_trim)
  show ?thesis
  proof (cases "is_special_url t \<or> js_includes t (js ''/service/'')")
    case True
    then have r: "handler_rewriteUrl H uv_config source url base = t"
      using False by (simp add: handler_rewriteUrl_unfold t_def)
    have "handler_rewriteUrl H uv_config source t base = t"
      using True tt by (simp add: handler_rewriteUrl_unfold)
    then show ?thesis by (simp add: r)
  next
    case False
    note plain = this
    show ?thesis
    proof (cases "andThen (new_URL H t (Some (or_else base source))) (\<lambda>u. xor_encode (href u))")
      case (Inl e)
      then have r: "handler_rewriteUrl H uv_config source url base = t"
        using \<open>url \<noteq> []\<close> plain by (simp add: handler_rewriteUrl_unfold t_def)
      have "handler_rewriteUrl H uv_config source t base = t"
        using plain tt Inl by (simp add: handler_rewriteUrl_unfold)
      then show ?thesis by (simp add: r)
    next
      case (Inr tok)
      define r where "r = js ''/service/'' @ tok"
      have res: "handler_rewriteUrl H uv_config source url base = r"
        using \<open>url \<noteq> []\<close> plain Inr by (simp add: handler_rewriteUrl_unfold t_def r_def)
      obtain u where u: "new_URL H t (Some (or_else base source)) = Inr u"
        and x: "xor_encode (href u) = Inr tok"
        using Inr by (cases "new_URL H t (Some (or_else base source))") auto
      have tok: "\<forall>c \<in> set tok. \<not> is_js_space c"
        using wf [OF u] x by (rule xor_encode_no_space)
      have "\<not> is_js_space (last r)"
      proof (cases "tok = []")
        case True
        then show ?thesis by (simp add: r_def js_def is_js_space_def)
      next
        case False
        then have "last r = last tok" "last tok \<in> set tok"
          by (simp_all add: r_def)
        then show ?thesis using tok by simp
      qed
      moreover have "\<not> is_js_space (hd r)"
        by (simp add: r_def js_def is_js_space_def)
      ultimately have tr: "trim r = r"
        by (intro trim_fixed) simp
      have "r = [] @ js ''/service/'' @ tok"
        by (simp add: r_def)
      then have inc: "js_includes r (js ''/service/'')"
        unfolding js_includes_iff by blast
      have ne: "r \<noteq> []"
        by (simp add: r_def js_def)
      have "handler_rewriteUrl H uv_config source r base = r"
        using ne inc tr by (simp add: handler_rewriteUrl_unfold)
      then show ?thesis by (simp add: res)
    qed
  qed
qed

end
